theory Spec2Isabelle
  imports Main "HOL-Library.Sublist"
begin

section \<open>JavaScript values that the client handles\<close>

text \<open>
  The module \<^verbatim>\<open>src/index.ts\<close> wraps an SSH transport. Its functions are promise
  executors and event callbacks; each callback runs to completion before the next event
  is delivered. A callback is modelled as a function on the variables its closure
  captures, an event delivery as one application of such a function, and the calls of
  \<^verbatim>\<open>resolve\<close> and \<^verbatim>\<open>reject\<close> as entries appended to a log.
\<close>

datatype js_error =
    Error string
  | VError js_error string
  | TypeError

text \<open>\<^verbatim>\<open>stdin?: string | Buffer | undefined\<close>; a Buffer is an object, hence truthy
  even when it is empty, and the empty string is falsy.\<close>

datatype stdin_arg = StdinString string | StdinBuffer "nat list" | StdinUndefined

fun truthy_stdin :: "stdin_arg \<Rightarrow> bool" where
  "truthy_stdin (StdinString s) = (s \<noteq> [])"
| "truthy_stdin (StdinBuffer b) = True"
| "truthy_stdin StdinUndefined = False"

text \<open>Numbers are integers here (milliseconds, exit codes); \<open>None\<close> is
  \<^verbatim>\<open>undefined\<close> for the timeout and \<^verbatim>\<open>null\<close> for the exit code. Zero is falsy.\<close>

definition truthy_num :: "int option \<Rightarrow> bool" where
  "truthy_num n = (case n of None \<Rightarrow> False | Some k \<Rightarrow> k \<noteq> 0)"

definition truthy_bool :: "bool option \<Rightarrow> bool" where
  "truthy_bool b = (case b of None \<Rightarrow> False | Some v \<Rightarrow> v)"

text \<open>Template literals render an integer in decimal.\<close>

definition digit_char :: "nat \<Rightarrow> char" where
  "digit_char d = ''0123456789'' ! d"

fun nat_digits :: "nat \<Rightarrow> string" where
  "nat_digits n =
     (if n < 10 then [digit_char n] else nat_digits (n div 10) @ [digit_char (n mod 10)])"

declare nat_digits.simps [simp del]

definition js_num_str :: "int \<Rightarrow> string" where
  "js_num_str i = (if i < 0 then ''-'' @ nat_digits (nat (- i)) else nat_digits (nat i))"

definition timeout_str :: "int option \<Rightarrow> string" where
  "timeout_str t = (case t of None \<Rightarrow> ''undefined'' | Some k \<Rightarrow> js_num_str k)"

definition code_str :: "int option \<Rightarrow> string" where
  "code_str c = (case c of None \<Rightarrow> ''null'' | Some k \<Rightarrow> js_num_str k)"

text \<open>\<^verbatim>\<open>code || 0\<close>\<close>

definition code_or_zero :: "int option \<Rightarrow> int" where
  "code_or_zero c = (case c of None \<Rightarrow> 0 | Some k \<Rightarrow> if k \<noteq> 0 then k else 0)"

section \<open>The command executor \<^verbatim>\<open>exec\<close>\<close>

record ExecResult =
  code :: int
  stdout :: string
  stderr :: string

datatype settlement = Resolve ExecResult | Reject js_error

text \<open>The options of \<^verbatim>\<open>exec\<close> are the options that \<^verbatim>\<open>execScript\<close> passes through
  (\<^verbatim>\<open>otherOptions\<close>) extended by \<^verbatim>\<open>stdin\<close>.\<close>

record other_options =
  timeout :: "int option"
  throwOnNonZero :: "bool option"

record exec_options = other_options +
  stdin :: stdin_arg

datatype timer_handle = Timeout

text \<open>The runtime's view of the one timer an invocation may start.\<close>

datatype timer_status = NoTimer | Pending | Fired | Cleared

datatype channel = ClientChannel

text \<open>
  The variables of one invocation: the locals of the promise executor (\<^verbatim>\<open>stdout\<close>,
  \<^verbatim>\<open>stderr\<close>, \<^verbatim>\<open>settled\<close>, \<^verbatim>\<open>timeoutId\<close>), the local \<^verbatim>\<open>stdinDone\<close> of the channel
  callback, and what the invocation did to its collaborators: the command handed to
  \<^verbatim>\<open>client.exec\<close>, the runtime's timer, whether the channel callback has run and has
  registered the data and exit listeners, the payloads handed to
  \<^verbatim>\<open>channel.stdin.end\<close>, the calls of \<^verbatim>\<open>resolve\<close>/\<^verbatim>\<open>reject\<close> in order, and the
  exceptions that escaped a callback.
\<close>

record exec_state =
  exec_cmd :: string
  stdout_buf :: string
  stderr_buf :: string
  settled :: bool
  timeoutId :: "timer_handle option"
  timer :: timer_status
  callback_ran :: bool
  listening :: bool
  stdinDone :: bool
  stdin_ends :: "stdin_arg list"
  settlements :: "settlement list"
  uncaught :: "js_error list"

datatype event =
    ExecCallback "js_error option" "channel option"
  | StdoutData string
  | StderrData string
  | Exit "int option"
  | StdinWritten
  | TimerFire

text \<open>The promise executor up to and including the call \<^verbatim>\<open>client.exec(cmd, callback)\<close>,
  which hands the command and the callback to the transport. The call is taken to
  return: the transport reports the outcome of opening the channel through the callback.\<close>

definition exec_start :: "string \<Rightarrow> exec_options \<Rightarrow> exec_state" where
  "exec_start cmd opts =
     \<lparr> exec_cmd = cmd,
       stdout_buf = [],
       stderr_buf = [],
       settled = False,
       timeoutId = (if truthy_num (timeout opts) then Some Timeout else None),
       timer = (if truthy_num (timeout opts) then Pending else NoTimer),
       callback_ran = False,
       listening = False,
       stdinDone = False,
       stdin_ends = [],
       settlements = [],
       uncaught = [] \<rparr>"

definition resolve :: "ExecResult \<Rightarrow> exec_state \<Rightarrow> exec_state" where
  "resolve r s = s\<lparr>settlements := settlements s @ [Resolve r]\<rparr>"

definition reject :: "js_error \<Rightarrow> exec_state \<Rightarrow> exec_state" where
  "reject e s = s\<lparr>settlements := settlements s @ [Reject e]\<rparr>"

definition timeout_msg :: "exec_options \<Rightarrow> string" where
  "timeout_msg opts = ''exec timeout of '' @ timeout_str (timeout opts) @ '' ms expired''"

text \<open>The callback given to \<^verbatim>\<open>setTimeout\<close>.\<close>

definition on_timeout :: "exec_options \<Rightarrow> exec_state \<Rightarrow> exec_state" where
  "on_timeout opts s =
     (if \<not> settled s then reject (Error (timeout_msg opts)) (s\<lparr>settled := True\<rparr>) else s)"

definition clearTimeout :: "exec_state \<Rightarrow> exec_state" where
  "clearTimeout s = (if timer s = Pending then s\<lparr>timer := Cleared\<rparr> else s)"

definition resultInfo :: "int option \<Rightarrow> exec_state \<Rightarrow> string" where
  "resultInfo c s =
     ''code: '' @ code_str c @ [CHR 0x0A] @
     ''stderr: '' @ [CHR 0x22] @ stderr_buf s @ [CHR 0x22] @ [CHR 0x0A] @
     ''stdout: '' @ [CHR 0x22] @ stdout_buf s @ [CHR 0x22]"

definition premature_msg :: "int option \<Rightarrow> exec_state \<Rightarrow> string" where
  "premature_msg c s = ''ssh command finished before stdin was written: '' @ resultInfo c s"

definition nonzero_msg :: "int option \<Rightarrow> exec_state \<Rightarrow> string" where
  "nonzero_msg c s = ''command exited with non-zero '' @ resultInfo c s"

text \<open>The listener of the channel's \<^verbatim>\<open>exit\<close> event.\<close>

definition on_exit :: "exec_options \<Rightarrow> int option \<Rightarrow> exec_state \<Rightarrow> exec_state" where
  "on_exit opts c s =
     (let s1 = (if timeoutId s \<noteq> None then (clearTimeout s)\<lparr>timeoutId := None\<rparr> else s)
      in if \<not> settled s1 then
           (let s2 = s1\<lparr>settled := True\<rparr>
            in if \<not> stdinDone s2 then reject (Error (premature_msg c s2)) s2
               else if truthy_bool (throwOnNonZero opts) \<and> truthy_num c
                 then reject (Error (nonzero_msg c s2)) s2
               else resolve \<lparr> code = code_or_zero c,
                              stdout = stdout_buf s2,
                              stderr = stderr_buf s2 \<rparr> s2)
         else s1)"

text \<open>
  The callback given to \<^verbatim>\<open>client.exec\<close>. It never reads \<^verbatim>\<open>err\<close>. Its first statement
  dereferences \<^verbatim>\<open>channel\<close>; when the transport passes no channel, that statement throws a
  TypeError out of the callback and nothing after it runs.
\<close>

definition on_exec_callback ::
  "exec_options \<Rightarrow> js_error option \<Rightarrow> channel option \<Rightarrow> exec_state \<Rightarrow> exec_state" where
  "on_exec_callback opts err chan s =
     (case chan of
        None \<Rightarrow> s\<lparr>uncaught := uncaught s @ [TypeError]\<rparr>
      | Some ch \<Rightarrow>
          (let s1 = s\<lparr>listening := True, stdinDone := \<not> truthy_stdin (stdin opts)\<rparr>
           in if truthy_stdin (stdin opts)
              then s1\<lparr>stdin_ends := stdin_ends s1 @ [stdin opts]\<rparr>
              else s1))"

text \<open>
  Event delivery by the runtime and the transport. The transport calls the callback of
  \<^verbatim>\<open>client.exec\<close> once; data and exit events reach the invocation only through the
  listeners that the callback registered (with \<^verbatim>\<open>on\<close>, so they stay registered); the
  write callback exists only after \<^verbatim>\<open>channel.stdin.end\<close> was called; a timer fires only
  while it is pending.
\<close>

fun deliver :: "exec_options \<Rightarrow> event \<Rightarrow> exec_state \<Rightarrow> exec_state" where
  "deliver opts (ExecCallback err chan) s =
     (if callback_ran s then s else on_exec_callback opts err chan (s\<lparr>callback_ran := True\<rparr>))"
| "deliver opts (StdoutData d) s =
     (if listening s then s\<lparr>stdout_buf := stdout_buf s @ d\<rparr> else s)"
| "deliver opts (StderrData d) s =
     (if listening s then s\<lparr>stderr_buf := stderr_buf s @ d\<rparr> else s)"
| "deliver opts (Exit c) s = (if listening s then on_exit opts c s else s)"
| "deliver opts StdinWritten s =
     (if stdin_ends s \<noteq> [] then s\<lparr>stdinDone := True\<rparr> else s)"
| "deliver opts TimerFire s =
     (if timer s = Pending then on_timeout opts (s\<lparr>timer := Fired\<rparr>) else s)"

fun run :: "exec_options \<Rightarrow> event list \<Rightarrow> exec_state \<Rightarrow> exec_state" where
  "run opts [] s = s"
| "run opts (e # es) s = run opts es (deliver opts e s)"

text \<open>All states an invocation passes through, in order.\<close>

fun trace :: "exec_options \<Rightarrow> event list \<Rightarrow> exec_state \<Rightarrow> exec_state list" where
  "trace opts [] s = [s]"
| "trace opts (e # es) s = s # trace opts es (deliver opts e s)"

text \<open>The number of places where a sequence of flag values goes from false to true.\<close>

fun rises :: "bool list \<Rightarrow> nat" where
  "rises (a # b # bs) = (if \<not> a \<and> b then 1 else 0) + rises (b # bs)"
| "rises bs = 0"

text \<open>
  What the channel emitted, read off the event sequence: the events that follow the
  callback of \<^verbatim>\<open>client.exec\<close> when it was given a channel (without a channel there
  are no streams), and the data chunks of each stream among them.
\<close>

fun after_open :: "event list \<Rightarrow> event list" where
  "after_open [] = []"
| "after_open (ExecCallback err chan # es) = (case chan of None \<Rightarrow> [] | Some ch \<Rightarrow> es)"
| "after_open (e # es) = after_open es"

fun stdout_chunks :: "event list \<Rightarrow> string list" where
  "stdout_chunks [] = []"
| "stdout_chunks (StdoutData d # es) = d # stdout_chunks es"
| "stdout_chunks (e # es) = stdout_chunks es"

fun stderr_chunks :: "event list \<Rightarrow> string list" where
  "stderr_chunks [] = []"
| "stderr_chunks (StderrData d # es) = d # stderr_chunks es"
| "stderr_chunks (e # es) = stderr_chunks es"

text \<open>Facts that hold of every state an invocation reaches.\<close>

definition exec_inv :: "exec_options \<Rightarrow> exec_state \<Rightarrow> bool" where
  "exec_inv opts s \<longleftrightarrow>
     (settled s \<longrightarrow> length (settlements s) = 1) \<and>
     (\<not> settled s \<longrightarrow> settlements s = []) \<and>
     (timer s = Pending \<longrightarrow> timeoutId s \<noteq> None \<and> \<not> settled s) \<and>
     (\<not> settled s \<and> truthy_num (timeout opts) \<longrightarrow> timer s = Pending) \<and>
     (listening s \<longrightarrow> callback_ran s) \<and>
     (stdin_ends s \<noteq> [] \<longrightarrow> truthy_stdin (stdin opts) \<and> listening s) \<and>
     (listening s \<and> \<not> truthy_stdin (stdin opts) \<longrightarrow> stdinDone s)"

section \<open>\<^verbatim>\<open>execScript\<close>\<close>

record script_options = other_options +
  sudo :: "bool option"

text \<open>An invocation is the option object its callbacks close over and its variables.
  (\<^verbatim>\<open>exec\<close> first awaits \<^verbatim>\<open>connectIfNeeded\<close>, which the next section models.)\<close>

type_synonym invocation = "exec_options \<times> exec_state"

definition exec :: "string \<Rightarrow> exec_options \<Rightarrow> invocation" where
  "exec cmd opts = (opts, exec_start cmd opts)"

definition invocation_run :: "event list \<Rightarrow> invocation \<Rightarrow> invocation" where
  "invocation_run es call = (fst call, run (fst call) es (snd call))"

text \<open>\<^verbatim>\<open>const { sudo, ...otherOptions } = options\<close>, then \<^verbatim>\<open>this.exec\<close> with the
  command \<^verbatim>\<open>`${sudo ? 'sudo ' : ''}bash -s`\<close> and the options
  \<^verbatim>\<open>{ ...otherOptions, stdin: script }\<close>.\<close>

definition execScript :: "string \<Rightarrow> script_options \<Rightarrow> invocation" where
  "execScript script options =
     (let sudo' = sudo options;
          otherOptions = other_options.truncate options
      in exec ((if truthy_bool sudo' then ''sudo '' else []) @ ''bash -s'')
           \<lparr> timeout = timeout otherOptions,
             throwOnNonZero = throwOnNonZero otherOptions,
             stdin = StdinString script \<rparr>)"

text \<open>The specification's reading of \<^verbatim>\<open>executeScript\<close>: \<^verbatim>\<open>execute\<close> of a shell that reads
  the script from its standard input, prefixed by the privilege-elevation command when
  \<^verbatim>\<open>sudo\<close> is true, with the remaining options unchanged and stdin fixed to the script.\<close>

definition spec_executeScript :: "string \<Rightarrow> script_options \<Rightarrow> invocation" where
  "spec_executeScript script options =
     exec (if sudo options = Some True then ''sudo bash -s'' else ''bash -s'')
       \<lparr> timeout = timeout options,
         throwOnNonZero = throwOnNonZero options,
         stdin = StdinString script \<rparr>"

section \<open>The connection manager\<close>

datatype connect_settlement = ConnectResolve | ConnectReject js_error

text \<open>
  The client's field \<^verbatim>\<open>connectStarted\<close>, and what it did to the transport: how often
  it called \<^verbatim>\<open>client.connect(config)\<close> and which of its listeners are registered for
  the transport's \<^verbatim>\<open>ready\<close> and \<^verbatim>\<open>error\<close> events. Every call of \<^verbatim>\<open>connect()\<close> creates
  one promise with a listener pair of its own; promises are numbered in the order of
  their creation, a listener carries the number of its promise, and the log holds the
  calls of \<^verbatim>\<open>resolve\<close> and \<^verbatim>\<open>reject\<close> with the promise they settle.
\<close>

record client_state =
  connectStarted :: bool
  connect_calls :: nat
  ready_listeners :: "nat list"
  error_listeners :: "nat list"
  connect_log :: "(nat \<times> connect_settlement) list"

definition new_client :: client_state where
  "new_client =
     \<lparr> connectStarted = False,
       connect_calls = 0,
       ready_listeners = [],
       error_listeners = [],
       connect_log = [] \<rparr>"

text \<open>\<^verbatim>\<open>connect()\<close> returns the promise it created.\<close>

definition connect :: "client_state \<Rightarrow> nat \<times> client_state" where
  "connect s =
     (let k = connect_calls s;
          s1 = s\<lparr>connectStarted := True\<rparr>;
          s2 = s1\<lparr>error_listeners := error_listeners s1 @ [k]\<rparr>;
          s3 = s2\<lparr>ready_listeners := ready_listeners s2 @ [k]\<rparr>
      in (k, s3\<lparr>connect_calls := Suc k\<rparr>))"

text \<open>\<^verbatim>\<open>connectIfNeeded()\<close> returns the promise it awaits, if any.\<close>

definition connectIfNeeded :: "client_state \<Rightarrow> nat option \<times> client_state" where
  "connectIfNeeded s =
     (if \<not> connectStarted s then (let (k, s') = connect s in (Some k, s')) else (None, s))"

text \<open>A listener registered with \<^verbatim>\<open>once\<close> is removed when it is called. \<^verbatim>\<open>onReady\<close> then
  removes its sibling and resolves; \<^verbatim>\<open>onError\<close> removes its sibling and rejects with the
  transport's error wrapped.\<close>

definition onReady :: "nat \<Rightarrow> client_state \<Rightarrow> client_state" where
  "onReady k s =
     s\<lparr> ready_listeners := remove1 k (ready_listeners s),
        error_listeners := remove1 k (error_listeners s),
        connect_log := connect_log s @ [(k, ConnectResolve)] \<rparr>"

definition onError :: "js_error \<Rightarrow> nat \<Rightarrow> client_state \<Rightarrow> client_state" where
  "onError err k s =
     s\<lparr> error_listeners := remove1 k (error_listeners s),
        ready_listeners := remove1 k (ready_listeners s),
        connect_log := connect_log s @ [(k, ConnectReject (VError err ''SSH connect failed''))] \<rparr>"

text \<open>The transport emits an event to the listeners registered when the emission starts,
  in the order of their registration; it emits after \<^verbatim>\<open>client.connect\<close> has returned.\<close>

definition emit_ready :: "client_state \<Rightarrow> client_state" where
  "emit_ready s = fold onReady (ready_listeners s) s"

definition emit_error :: "js_error \<Rightarrow> client_state \<Rightarrow> client_state" where
  "emit_error err s = fold (onError err) (error_listeners s) s"

datatype client_event = CallConnect | CallConnectIfNeeded | EmitReady | EmitError js_error

fun client_step :: "client_event \<Rightarrow> client_state \<Rightarrow> client_state" where
  "client_step CallConnect s = snd (connect s)"
| "client_step CallConnectIfNeeded s = snd (connectIfNeeded s)"
| "client_step EmitReady s = emit_ready s"
| "client_step (EmitError err) s = emit_error err s"

fun client_run :: "client_event list \<Rightarrow> client_state \<Rightarrow> client_state" where
  "client_run [] s = s"
| "client_run (e # es) s = client_run es (client_step e s)"

text \<open>The calls of \<^verbatim>\<open>resolve\<close>/\<^verbatim>\<open>reject\<close> of one promise, and the first transport signal of
  an event sequence.\<close>

definition settlements_of :: "nat \<Rightarrow> client_state \<Rightarrow> connect_settlement list" where
  "settlements_of k s = map snd (filter (\<lambda>p. fst p = k) (connect_log s))"

fun first_signal :: "client_event list \<Rightarrow> client_event option" where
  "first_signal [] = None"
| "first_signal (EmitReady # es) = Some EmitReady"
| "first_signal (EmitError err # es) = Some (EmitError err)"
| "first_signal (e # es) = first_signal es"

definition client_inv :: "client_state \<Rightarrow> bool" where
  "client_inv s \<longleftrightarrow>
     distinct (ready_listeners s) \<and> distinct (error_listeners s) \<and>
     list_all (\<lambda>k. k < connect_calls s) (ready_listeners s) \<and>
     list_all (\<lambda>k. k < connect_calls s) (error_listeners s) \<and>
     list_all (\<lambda>p. fst p < connect_calls s) (connect_log s) \<and>
     (connectStarted s \<longleftrightarrow> 0 < connect_calls s)"


section \<open>Properties of the command executor\<close>

subsection \<open>Invariants of an invocation\<close>

lemma exec_inv_start: "exec_inv opts (exec_start cmd opts)"
  by (simp add: exec_inv_def exec_start_def)

lemma exec_inv_deliver: "exec_inv opts s \<Longrightarrow> exec_inv opts (deliver opts e s)"
  by (cases e)
     (auto simp: exec_inv_def on_exec_callback_def on_exit_def on_timeout_def clearTimeout_def
        reject_def resolve_def Let_def split: option.splits)

lemma exec_inv_run: "exec_inv opts s \<Longrightarrow> exec_inv opts (run opts es s)"
  by (induction es arbitrary: s) (simp_all add: exec_inv_deliver)

lemma settled_deliver: "settled s \<Longrightarrow> settled (deliver opts e s)"
  by (cases e)
     (auto simp: on_exec_callback_def on_exit_def on_timeout_def clearTimeout_def
        reject_def resolve_def Let_def split: option.splits)

lemma settlements_deliver_settled:
  "settled s \<Longrightarrow> settlements (deliver opts e s) = settlements s"
  by (cases e)
     (auto simp: on_exec_callback_def on_exit_def on_timeout_def clearTimeout_def
        reject_def resolve_def Let_def split: option.splits)

lemma settled_run: "settled s \<Longrightarrow> settled (run opts es s)"
  by (induction es arbitrary: s) (simp_all add: settled_deliver)

lemma settlements_run_settled:
  "settled s \<Longrightarrow> settlements (run opts es s) = settlements s"
  by (induction es arbitrary: s) (simp_all add: settled_deliver settlements_deliver_settled)

lemma run_append: "run opts (xs @ ys) s = run opts ys (run opts xs s)"
  by (induction xs arbitrary: s) simp_all

lemma trace_hd: "\<exists>t. trace opts es s = s # t"
  by (cases es) simp_all

lemma rises_settled: "settled s \<Longrightarrow> rises (map settled (trace opts es s)) = 0"
proof (induction es arbitrary: s)
  case Nil
  then show ?case by simp
next
  case (Cons e es)
  obtain t where t: "trace opts es (deliver opts e s) = deliver opts e s # t"
    using trace_hd by blast
  from Cons.prems have "settled (deliver opts e s)" by (rule settled_deliver)
  with Cons.IH [of "deliver opts e s"] Cons.prems t show ?case by simp
qed

lemma rises_trace: "rises (map settled (trace opts es s)) \<le> 1"
proof (induction es arbitrary: s)
  case Nil
  then show ?case by simp
next
  case (Cons e es)
  obtain t where t: "trace opts es (deliver opts e s) = deliver opts e s # t"
    using trace_hd by blast
  show ?case
  proof (cases "settled (deliver opts e s)")
    case True
    then have "rises (map settled (trace opts es (deliver opts e s))) = 0"
      by (rule rises_settled)
    with t show ?thesis by simp
  next
    case False
    with Cons.IH [of "deliver opts e s"] t show ?thesis by simp
  qed
qed

lemma settled_after_exit: "listening s \<Longrightarrow> settled (deliver opts (Exit c) s)"
  by (auto simp: on_exit_def clearTimeout_def reject_def resolve_def Let_def)

lemma settled_after_timer:
  "exec_inv opts s \<Longrightarrow> truthy_num (timeout opts) \<Longrightarrow> settled (deliver opts TimerFire s)"
  by (auto simp: exec_inv_def on_timeout_def reject_def)

lemma settled_run_timer:
  "exec_inv opts s \<Longrightarrow> truthy_num (timeout opts) \<Longrightarrow> TimerFire \<in> set es
     \<Longrightarrow> settled (run opts es s)"
proof (induction es arbitrary: s)
  case Nil
  then show ?case by simp
next
  case (Cons e es)
  show ?case
  proof (cases "e = TimerFire")
    case True
    with Cons.prems have "settled (deliver opts e s)"
      by (simp only: settled_after_timer)
    then show ?thesis by (simp add: settled_run)
  next
    case False
    with Cons.prems have "TimerFire \<in> set es" by simp
    with Cons.IH [of "deliver opts e s"] Cons.prems show ?thesis
      by (simp add: exec_inv_deliver)
  qed
qed

lemma settled_iff_one:
  "exec_inv opts s \<Longrightarrow> settled s \<longleftrightarrow> length (settlements s) = 1"
  by (auto simp: exec_inv_def)

subsection \<open>Single settlement\<close>

text \<open>
  Claim C1. For every invocation of \<^verbatim>\<open>exec\<close> and every sequence of events, the flag
  \<^verbatim>\<open>settled\<close> goes from false to true at most once along the states the invocation
  passes through; \<^verbatim>\<open>resolve\<close> and \<^verbatim>\<open>reject\<close> are called at most once in total, and
  exactly once when the flag is set; they are called exactly once whenever the sequence
  holds a firing of the configured timer or an exit event on the opened channel, in any
  order; and no handler calls \<^verbatim>\<open>resolve\<close> or \<^verbatim>\<open>reject\<close> in a state where the flag is set.
\<close>

theorem exec_settles_once:
  "rises (map settled (trace opts es (exec_start cmd opts))) \<le> 1
    \<and> length (settlements (run opts es (exec_start cmd opts))) \<le> 1
    \<and> (settled (run opts es (exec_start cmd opts))
         \<longleftrightarrow> length (settlements (run opts es (exec_start cmd opts))) = 1)
    \<and> ((truthy_num (timeout opts) \<and> TimerFire \<in> set es) \<or>
        (\<exists>pre c post. es = pre @ Exit c # post
           \<and> listening (run opts pre (exec_start cmd opts)))
        \<longrightarrow> length (settlements (run opts es (exec_start cmd opts))) = 1)
    \<and> (\<forall>e s. settled s \<longrightarrow> settlements (deliver opts e s) = settlements s)"
proof -
  define final where "final xs = run opts xs (exec_start cmd opts)" for xs
  have inv: "exec_inv opts (final xs)" for xs
    unfolding final_def by (rule exec_inv_run [OF exec_inv_start])
  have one: "settled (final xs) \<longleftrightarrow> length (settlements (final xs)) = 1" for xs
    by (rule settled_iff_one [OF inv])
  have le: "length (settlements (final es)) \<le> 1"
    using inv [of es] by (cases "settled (final es)") (simp_all add: exec_inv_def)
  have timer: "settled (final es)" if "truthy_num (timeout opts)" "TimerFire \<in> set es"
    unfolding final_def using exec_inv_start that by (rule settled_run_timer)
  have exit: "settled (final es)"
    if "es = pre @ Exit c # post" "listening (final pre)" for pre c post
  proof -
    have "final es = run opts post (deliver opts (Exit c) (final pre))"
      using that(1) by (simp add: final_def run_append)
    moreover have "settled (deliver opts (Exit c) (final pre))"
      using that(2) by (rule settled_after_exit)
    ultimately show ?thesis by (simp add: settled_run)
  qed
  have eff: "(truthy_num (timeout opts) \<and> TimerFire \<in> set es) \<or>
        (\<exists>pre c post. es = pre @ Exit c # post \<and> listening (final pre))
        \<longrightarrow> length (settlements (final es)) = 1"
    using timer exit one [of es] by blast
  show ?thesis
    using rises_trace le one [of es] eff settlements_deliver_settled
    unfolding final_def by blast
qed

theorem exec_settles_once_witness:
  "truthy_num (timeout \<lparr>timeout = Some 100, throwOnNonZero = None, stdin = StdinUndefined\<rparr>)
   \<and> TimerFire \<in> set [ExecCallback None (Some ClientChannel), TimerFire, Exit (Some 0)]
   \<and> settled (run \<lparr>timeout = Some 100, throwOnNonZero = None, stdin = StdinUndefined\<rparr>
        [ExecCallback None (Some ClientChannel), TimerFire, Exit (Some 0)]
        (exec_start ''sleep 5'' \<lparr>timeout = Some 100, throwOnNonZero = None, stdin = StdinUndefined\<rparr>))
   \<and> length (settlements (run \<lparr>timeout = Some 100, throwOnNonZero = None, stdin = StdinUndefined\<rparr>
        [ExecCallback None (Some ClientChannel), TimerFire, Exit (Some 0)]
        (exec_start ''sleep 5'' \<lparr>timeout = Some 100, throwOnNonZero = None, stdin = StdinUndefined\<rparr>))) = 1"
  using exec_settles_once [of "\<lparr>timeout = Some 100, throwOnNonZero = None, stdin = StdinUndefined\<rparr>"
      "[ExecCallback None (Some ClientChannel), TimerFire, Exit (Some 0)]" "''sleep 5''"]
  by (simp add: truthy_num_def)

subsection \<open>Accumulated output and the stdin flag along an event sequence\<close>

lemma listening_deliver: "listening s \<Longrightarrow> listening (deliver opts e s)"
  by (cases e)
     (auto simp: on_exec_callback_def on_exit_def on_timeout_def clearTimeout_def
        reject_def resolve_def Let_def split: option.splits)

lemma stdout_deliver_listening:
  "listening s \<Longrightarrow> stdout_buf (deliver opts e s) = stdout_buf s @ concat (stdout_chunks [e])"
  by (cases e)
     (auto simp: on_exec_callback_def on_exit_def on_timeout_def clearTimeout_def
        reject_def resolve_def Let_def split: option.splits)

lemma stderr_deliver_listening:
  "listening s \<Longrightarrow> stderr_buf (deliver opts e s) = stderr_buf s @ concat (stderr_chunks [e])"
  by (cases e)
     (auto simp: on_exec_callback_def on_exit_def on_timeout_def clearTimeout_def
        reject_def resolve_def Let_def split: option.splits)

lemma stdout_chunks_Cons: "stdout_chunks (e # es) = stdout_chunks [e] @ stdout_chunks es"
  by (cases e) simp_all

lemma stderr_chunks_Cons: "stderr_chunks (e # es) = stderr_chunks [e] @ stderr_chunks es"
  by (cases e) simp_all

lemma stdout_run_listening:
  "listening s \<Longrightarrow> stdout_buf (run opts es s) = stdout_buf s @ concat (stdout_chunks es)"
proof (induction es arbitrary: s)
  case Nil
  then show ?case by simp
next
  case (Cons e es)
  have "stdout_buf (run opts (e # es) s)
      = stdout_buf (deliver opts e s) @ concat (stdout_chunks es)"
    using Cons.IH [of "deliver opts e s"] Cons.prems by (simp add: listening_deliver)
  also have "\<dots> = stdout_buf s @ concat (stdout_chunks [e]) @ concat (stdout_chunks es)"
    using Cons.prems by (simp add: stdout_deliver_listening)
  also have "\<dots> = stdout_buf s @ concat (stdout_chunks (e # es))"
    by (subst (2) stdout_chunks_Cons) simp
  finally show ?case .
qed

lemma stderr_run_listening:
  "listening s \<Longrightarrow> stderr_buf (run opts es s) = stderr_buf s @ concat (stderr_chunks es)"
proof (induction es arbitrary: s)
  case Nil
  then show ?case by simp
next
  case (Cons e es)
  have "stderr_buf (run opts (e # es) s)
      = stderr_buf (deliver opts e s) @ concat (stderr_chunks es)"
    using Cons.IH [of "deliver opts e s"] Cons.prems by (simp add: listening_deliver)
  also have "\<dots> = stderr_buf s @ concat (stderr_chunks [e]) @ concat (stderr_chunks es)"
    using Cons.prems by (simp add: stderr_deliver_listening)
  also have "\<dots> = stderr_buf s @ concat (stderr_chunks (e # es))"
    by (subst (2) stderr_chunks_Cons) simp
  finally show ?case .
qed

text \<open>Once the callback has run without registering listeners, the channel variables never change.\<close>

lemma closed_deliver:
  "callback_ran s \<Longrightarrow> \<not> listening s \<Longrightarrow>
     callback_ran (deliver opts e s) \<and> \<not> listening (deliver opts e s)
     \<and> stdout_buf (deliver opts e s) = stdout_buf s
     \<and> stderr_buf (deliver opts e s) = stderr_buf s
     \<and> stdinDone (deliver opts e s) = (stdinDone s \<or> (e = StdinWritten \<and> stdin_ends s \<noteq> []))
     \<and> stdin_ends (deliver opts e s) = stdin_ends s"
  by (cases e) (auto simp: on_timeout_def reject_def)

lemma closed_run:
  "callback_ran s \<Longrightarrow> \<not> listening s \<Longrightarrow> \<not> listening (run opts es s)"
proof (induction es arbitrary: s)
  case Nil
  then show ?case by simp
next
  case (Cons e es)
  from closed_deliver [OF Cons.prems, of opts e]
  have "callback_ran (deliver opts e s)" "\<not> listening (deliver opts e s)" by simp_all
  then show ?case using Cons.IH [of "deliver opts e s"] by simp
qed

text \<open>Before the callback runs, no event but the timer changes anything.\<close>

lemma fresh_deliver:
  "\<not> callback_ran s \<Longrightarrow> \<not> listening s \<Longrightarrow> stdin_ends s = [] \<Longrightarrow>
     (\<forall>err chan. e \<noteq> ExecCallback err chan) \<Longrightarrow>
     \<not> callback_ran (deliver opts e s) \<and> \<not> listening (deliver opts e s)
     \<and> stdin_ends (deliver opts e s) = []
     \<and> stdout_buf (deliver opts e s) = stdout_buf s
     \<and> stderr_buf (deliver opts e s) = stderr_buf s"
  by (cases e) (auto simp: on_timeout_def reject_def)

lemma open_deliver:
  "\<not> callback_ran s \<Longrightarrow>
     listening (deliver opts (ExecCallback err (Some ch)) s)
     \<and> stdout_buf (deliver opts (ExecCallback err (Some ch)) s) = stdout_buf s
     \<and> stderr_buf (deliver opts (ExecCallback err (Some ch)) s) = stderr_buf s
     \<and> stdinDone (deliver opts (ExecCallback err (Some ch)) s) = (\<not> truthy_stdin (stdin opts))
     \<and> stdin_ends (deliver opts (ExecCallback err (Some ch)) s)
         = stdin_ends s @ (if truthy_stdin (stdin opts) then [stdin opts] else [])"
  by (simp add: on_exec_callback_def Let_def)

lemma fail_deliver:
  "\<not> callback_ran s \<Longrightarrow> \<not> listening s \<Longrightarrow>
     callback_ran (deliver opts (ExecCallback err None) s)
     \<and> \<not> listening (deliver opts (ExecCallback err None) s)
     \<and> settlements (deliver opts (ExecCallback err None) s) = settlements s
     \<and> uncaught (deliver opts (ExecCallback err None) s) = uncaught s @ [TypeError]"
  by (simp add: on_exec_callback_def)

lemma buffers_run_fresh:
  "\<not> callback_ran s \<Longrightarrow> \<not> listening s \<Longrightarrow> stdin_ends s = [] \<Longrightarrow>
     listening (run opts es s) \<Longrightarrow>
     stdout_buf (run opts es s) = stdout_buf s @ concat (stdout_chunks (after_open es))
     \<and> stderr_buf (run opts es s) = stderr_buf s @ concat (stderr_chunks (after_open es))"
proof (induction es arbitrary: s)
  case Nil
  then show ?case by simp
next
  case (Cons e es)
  show ?case
  proof (cases e)
    case (ExecCallback err chan)
    show ?thesis
    proof (cases chan)
      case None
      from Cons.prems fail_deliver [of s opts err]
      have "callback_ran (deliver opts (ExecCallback err None) s)"
        and "\<not> listening (deliver opts (ExecCallback err None) s)"
        by blast+
      then have "\<not> listening (run opts es (deliver opts (ExecCallback err None) s))"
        by (rule closed_run)
      with Cons.prems(4) ExecCallback None show ?thesis by simp
    next
      case (Some ch)
      with ExecCallback Cons.prems open_deliver [of s opts err ch] show ?thesis
        by (simp add: stdout_run_listening stderr_run_listening del: deliver.simps)
    qed
  next
    case (StdoutData d)
    with Cons.prems fresh_deliver [of s e opts] Cons.IH [of "deliver opts e s"]
    show ?thesis by (simp del: deliver.simps)
  next
    case (StderrData d)
    with Cons.prems fresh_deliver [of s e opts] Cons.IH [of "deliver opts e s"]
    show ?thesis by (simp del: deliver.simps)
  next
    case (Exit c)
    with Cons.prems fresh_deliver [of s e opts] Cons.IH [of "deliver opts e s"]
    show ?thesis by (simp del: deliver.simps)
  next
    case StdinWritten
    with Cons.prems fresh_deliver [of s e opts] Cons.IH [of "deliver opts e s"]
    show ?thesis by (simp del: deliver.simps)
  next
    case TimerFire
    with Cons.prems fresh_deliver [of s e opts] Cons.IH [of "deliver opts e s"]
    show ?thesis by (simp del: deliver.simps)
  qed
qed

lemma buffers_reached:
  "listening (run opts es (exec_start cmd opts)) \<Longrightarrow>
     stdout_buf (run opts es (exec_start cmd opts)) = concat (stdout_chunks (after_open es))
     \<and> stderr_buf (run opts es (exec_start cmd opts)) = concat (stderr_chunks (after_open es))"
  using buffers_run_fresh [of "exec_start cmd opts" opts es] by (simp add: exec_start_def)

lemma open_state_deliver:
  "callback_ran s \<Longrightarrow> listening s \<Longrightarrow>
     callback_ran (deliver opts e s) \<and> listening (deliver opts e s)
     \<and> stdin_ends (deliver opts e s) = stdin_ends s
     \<and> stdinDone (deliver opts e s) = (stdinDone s \<or> (e = StdinWritten \<and> stdin_ends s \<noteq> []))"
  by (cases e)
     (auto simp: on_exit_def on_timeout_def clearTimeout_def reject_def resolve_def Let_def)

lemma stdinDone_run_listening:
  "callback_ran s \<Longrightarrow> listening s \<Longrightarrow>
     stdinDone (run opts es s) = (stdinDone s \<or> (stdin_ends s \<noteq> [] \<and> StdinWritten \<in> set es))"
proof (induction es arbitrary: s)
  case Nil
  then show ?case by simp
next
  case (Cons e es)
  note d = open_state_deliver [OF Cons.prems, of opts e]
  from d have "stdinDone (run opts es (deliver opts e s))
      = (stdinDone (deliver opts e s) \<or> (stdin_ends (deliver opts e s) \<noteq> [] \<and> StdinWritten \<in> set es))"
    by (intro Cons.IH) simp_all
  with d show ?case by (simp del: deliver.simps) blast
qed

lemma stdinDone_run_fresh:
  "\<not> callback_ran s \<Longrightarrow> \<not> listening s \<Longrightarrow> stdin_ends s = [] \<Longrightarrow>
     listening (run opts es s) \<Longrightarrow>
     stdinDone (run opts es s)
       = (\<not> truthy_stdin (stdin opts) \<or> StdinWritten \<in> set (after_open es))"
proof (induction es arbitrary: s)
  case Nil
  then show ?case by simp
next
  case (Cons e es)
  show ?case
  proof (cases e)
    case (ExecCallback err chan)
    show ?thesis
    proof (cases chan)
      case None
      from Cons.prems fail_deliver [of s opts err]
      have "callback_ran (deliver opts (ExecCallback err None) s)"
        and "\<not> listening (deliver opts (ExecCallback err None) s)"
        by blast+
      then have "\<not> listening (run opts es (deliver opts (ExecCallback err None) s))"
        by (rule closed_run)
      with Cons.prems(4) ExecCallback None show ?thesis by simp
    next
      case (Some ch)
      note d = open_deliver [OF Cons.prems(1), of opts err ch]
      have cb: "callback_ran (deliver opts (ExecCallback err (Some ch)) s)"
        by (simp add: on_exec_callback_def Let_def)
      from d have "stdinDone (run opts es (deliver opts (ExecCallback err (Some ch)) s))
        = (\<not> truthy_stdin (stdin opts) \<or> (truthy_stdin (stdin opts) \<and> StdinWritten \<in> set es))"
        using Cons.prems(3) by (simp add: stdinDone_run_listening [OF cb] del: deliver.simps)
      with ExecCallback Some show ?thesis by (auto simp del: deliver.simps)
    qed
  next
    case (StdoutData d)
    with Cons.prems fresh_deliver [of s e opts] Cons.IH [of "deliver opts e s"]
    show ?thesis by (simp del: deliver.simps)
  next
    case (StderrData d)
    with Cons.prems fresh_deliver [of s e opts] Cons.IH [of "deliver opts e s"]
    show ?thesis by (simp del: deliver.simps)
  next
    case (Exit c)
    with Cons.prems fresh_deliver [of s e opts] Cons.IH [of "deliver opts e s"]
    show ?thesis by (simp del: deliver.simps)
  next
    case StdinWritten
    with Cons.prems fresh_deliver [of s e opts] Cons.IH [of "deliver opts e s"]
    show ?thesis by (simp del: deliver.simps)
  next
    case TimerFire
    with Cons.prems fresh_deliver [of s e opts] Cons.IH [of "deliver opts e s"]
    show ?thesis by (simp del: deliver.simps)
  qed
qed

lemma stdinDone_reached:
  "listening (run opts es (exec_start cmd opts)) \<Longrightarrow>
     stdinDone (run opts es (exec_start cmd opts))
       = (\<not> truthy_stdin (stdin opts) \<or> StdinWritten \<in> set (after_open es))"
  using stdinDone_run_fresh [of "exec_start cmd opts" opts es] by (simp add: exec_start_def)

lemma settlements_exit:
  "listening s \<Longrightarrow> \<not> settled s \<Longrightarrow> settlements s = [] \<Longrightarrow>
     settlements (deliver opts (Exit c) s) =
       [if \<not> stdinDone s then Reject (Error (premature_msg c s))
        else if truthy_bool (throwOnNonZero opts) \<and> truthy_num c
          then Reject (Error (nonzero_msg c s))
        else Resolve \<lparr> code = code_or_zero c, stdout = stdout_buf s, stderr = stderr_buf s \<rparr>]"
  by (simp add: on_exit_def clearTimeout_def reject_def resolve_def Let_def
        premature_msg_def nonzero_msg_def resultInfo_def)

text \<open>The settlement of an exit event that reaches an unsettled invocation, and its
  permanence.\<close>

lemma exit_reached:
  assumes "listening (run opts pre (exec_start cmd opts))"
    and "\<not> settled (run opts pre (exec_start cmd opts))"
  shows "settlements (run opts (pre @ Exit c # post) (exec_start cmd opts)) =
       [if \<not> stdinDone (run opts pre (exec_start cmd opts))
          then Reject (Error (premature_msg c (run opts pre (exec_start cmd opts))))
        else if truthy_bool (throwOnNonZero opts) \<and> truthy_num c
          then Reject (Error (nonzero_msg c (run opts pre (exec_start cmd opts))))
        else Resolve \<lparr> code = code_or_zero c,
                       stdout = stdout_buf (run opts pre (exec_start cmd opts)),
                       stderr = stderr_buf (run opts pre (exec_start cmd opts)) \<rparr>]"
proof -
  define s where "s = run opts pre (exec_start cmd opts)"
  have inv: "exec_inv opts s"
    unfolding s_def by (rule exec_inv_run [OF exec_inv_start])
  with assms(2) have empty: "settlements s = []"
    by (simp add: exec_inv_def s_def)
  have "settled (deliver opts (Exit c) s)"
    using assms(1) unfolding s_def by (rule settled_after_exit)
  then have "settlements (run opts post (deliver opts (Exit c) s))
      = settlements (deliver opts (Exit c) s)"
    by (rule settlements_run_settled)
  moreover have "run opts (pre @ Exit c # post) (exec_start cmd opts)
      = run opts post (deliver opts (Exit c) s)"
    by (simp add: run_append s_def)
  ultimately show ?thesis
    using settlements_exit [of s opts c] assms empty unfolding s_def by simp
qed

lemma timer_reached:
  assumes "truthy_num (timeout opts)"
    and "\<not> settled (run opts pre (exec_start cmd opts))"
  shows "settlements (run opts (pre @ TimerFire # post) (exec_start cmd opts))
       = [Reject (Error (timeout_msg opts))]"
proof -
  define s where "s = run opts pre (exec_start cmd opts)"
  have inv: "exec_inv opts s"
    unfolding s_def by (rule exec_inv_run [OF exec_inv_start])
  with assms have facts: "settlements s = []" "timer s = Pending" "\<not> settled s"
    by (simp_all add: exec_inv_def s_def)
  then have fire: "settlements (deliver opts TimerFire s) = [Reject (Error (timeout_msg opts))]"
    by (simp add: on_timeout_def reject_def)
  have "settled (deliver opts TimerFire s)"
    using inv assms(1) by (rule settled_after_timer)
  then have "settlements (run opts post (deliver opts TimerFire s))
      = settlements (deliver opts TimerFire s)"
    by (rule settlements_run_settled)
  moreover have "run opts (pre @ TimerFire # post) (exec_start cmd opts)
      = run opts post (deliver opts TimerFire s)"
    by (simp add: run_append s_def)
  ultimately show ?thesis using fire by simp
qed

lemma cleared_deliver: "timer s = Cleared \<Longrightarrow> timer (deliver opts e s) = Cleared"
  by (cases e)
     (auto simp: on_exec_callback_def on_exit_def clearTimeout_def reject_def resolve_def
        Let_def split: option.splits)

lemma cleared_run: "timer s = Cleared \<Longrightarrow> timer (run opts es s) = Cleared"
  by (induction es arbitrary: s) (simp_all add: cleared_deliver del: deliver.simps)

lemma exit_clears_timer:
  "listening s \<Longrightarrow> timer s = Pending \<Longrightarrow> timeoutId s \<noteq> None \<Longrightarrow>
     timer (deliver opts (Exit c) s) = Cleared \<and> timeoutId (deliver opts (Exit c) s) = None"
  by (simp add: on_exit_def clearTimeout_def reject_def resolve_def Let_def)

lemma premature_not_timeout: "premature_msg c s \<noteq> timeout_msg opts"
  by (simp add: premature_msg_def timeout_msg_def)

lemma nonzero_not_timeout: "nonzero_msg c s \<noteq> timeout_msg opts"
  by (simp add: nonzero_msg_def timeout_msg_def)

lemma premature_not_nonzero: "premature_msg c s \<noteq> nonzero_msg c' s'"
  by (simp add: premature_msg_def nonzero_msg_def)

subsection \<open>Timeout against exit\<close>

text \<open>
  Claim C2. Let a timeout \<open>T\<close> be configured (a number other than zero). If the timer
  fires while the invocation is unsettled, \<^verbatim>\<open>exec\<close> rejects with the error whose message
  reports \<open>T\<close>, and whatever is delivered afterwards, exit events included, leaves
  that one rejection as the only settlement. Conversely, an exit event that reaches the
  invocation while the timer is pending clears the timer and the variable \<^verbatim>\<open>timeoutId\<close>;
  the timer stays cleared, so it never fires, the settlement that the exit handler
  decided is never changed, and it is not the timeout rejection.
\<close>

theorem exec_timeout_priority:
  assumes "timeout opts = Some T" and "T \<noteq> 0"
  shows "(\<not> settled (run opts pre (exec_start cmd opts)) \<longrightarrow>
            settlements (run opts (pre @ TimerFire # post) (exec_start cmd opts))
              = [Reject (Error (''exec timeout of '' @ js_num_str T @ '' ms expired''))])
       \<and> (listening (run opts pre (exec_start cmd opts))
            \<and> timer (run opts pre (exec_start cmd opts)) = Pending \<longrightarrow>
            timer (run opts (pre @ [Exit c]) (exec_start cmd opts)) = Cleared
            \<and> timeoutId (run opts (pre @ [Exit c]) (exec_start cmd opts)) = None
            \<and> timer (run opts (pre @ Exit c # post) (exec_start cmd opts)) = Cleared
            \<and> settlements (run opts (pre @ Exit c # post) (exec_start cmd opts))
                = settlements (run opts (pre @ [Exit c]) (exec_start cmd opts))
            \<and> Reject (Error (timeout_msg opts))
                \<notin> set (settlements (run opts (pre @ Exit c # post) (exec_start cmd opts))))"
proof -
  define s where "s = run opts pre (exec_start cmd opts)"
  have truthy: "truthy_num (timeout opts)"
    using assms by (simp add: truthy_num_def)
  have msg: "timeout_msg opts = ''exec timeout of '' @ js_num_str T @ '' ms expired''"
    using assms by (simp add: timeout_msg_def timeout_str_def)
  have inv: "exec_inv opts s"
    unfolding s_def by (rule exec_inv_run [OF exec_inv_start])
  have fire: "settlements (run opts (pre @ TimerFire # post) (exec_start cmd opts))
      = [Reject (Error (''exec timeout of '' @ js_num_str T @ '' ms expired''))]"
    if "\<not> settled s"
    using timer_reached [OF truthy, of pre cmd post] that msg by (simp add: s_def)
  have exit: "timer (run opts (pre @ [Exit c]) (exec_start cmd opts)) = Cleared
      \<and> timeoutId (run opts (pre @ [Exit c]) (exec_start cmd opts)) = None
      \<and> timer (run opts (pre @ Exit c # post) (exec_start cmd opts)) = Cleared
      \<and> settlements (run opts (pre @ Exit c # post) (exec_start cmd opts))
          = settlements (run opts (pre @ [Exit c]) (exec_start cmd opts))
      \<and> Reject (Error (timeout_msg opts))
          \<notin> set (settlements (run opts (pre @ Exit c # post) (exec_start cmd opts)))"
    if l: "listening s" and p: "timer s = Pending"
  proof -
    from inv p have ns: "\<not> settled s" and tid: "timeoutId s \<noteq> None"
      by (simp_all add: exec_inv_def)
    have one: "run opts (pre @ [Exit c]) (exec_start cmd opts) = deliver opts (Exit c) s"
      by (simp add: run_append s_def)
    have more: "run opts (pre @ Exit c # post) (exec_start cmd opts)
        = run opts post (deliver opts (Exit c) s)"
      by (simp add: run_append s_def)
    note cl = exit_clears_timer [OF l p tid, of opts c]
    have st: "settled (deliver opts (Exit c) s)"
      using l by (rule settled_after_exit)
    have same: "settlements (run opts post (deliver opts (Exit c) s))
        = settlements (deliver opts (Exit c) s)"
      using st by (rule settlements_run_settled)
    have later: "timer (run opts post (deliver opts (Exit c) s)) = Cleared"
      using cl by (intro cleared_run) simp
    have "Reject (Error (timeout_msg opts)) \<notin> set (settlements (deliver opts (Exit c) s))"
      using settlements_exit [OF l ns, of opts c] inv ns
      by (simp add: exec_inv_def premature_not_timeout [symmetric]
            nonzero_not_timeout [symmetric] del: deliver.simps)
    with cl same later show ?thesis
      unfolding one more by simp
  qed
  from fire exit show ?thesis unfolding s_def by blast
qed

theorem exec_timeout_priority_witness:
  "timeout \<lparr>timeout = Some 100, throwOnNonZero = None, stdin = StdinUndefined\<rparr> = Some 100
   \<and> (100 :: int) \<noteq> 0
   \<and> \<not> settled (run \<lparr>timeout = Some 100, throwOnNonZero = None, stdin = StdinUndefined\<rparr>
        [ExecCallback None (Some ClientChannel)]
        (exec_start ''sleep 5'' \<lparr>timeout = Some 100, throwOnNonZero = None, stdin = StdinUndefined\<rparr>))
   \<and> settlements (run \<lparr>timeout = Some 100, throwOnNonZero = None, stdin = StdinUndefined\<rparr>
        ([ExecCallback None (Some ClientChannel)] @ TimerFire # [Exit (Some 0)])
        (exec_start ''sleep 5'' \<lparr>timeout = Some 100, throwOnNonZero = None, stdin = StdinUndefined\<rparr>))
       = [Reject (Error ''exec timeout of 100 ms expired'')]
   \<and> listening (run \<lparr>timeout = Some 100, throwOnNonZero = None, stdin = StdinUndefined\<rparr>
        [ExecCallback None (Some ClientChannel)]
        (exec_start ''sleep 5'' \<lparr>timeout = Some 100, throwOnNonZero = None, stdin = StdinUndefined\<rparr>))
   \<and> timer (run \<lparr>timeout = Some 100, throwOnNonZero = None, stdin = StdinUndefined\<rparr>
        [ExecCallback None (Some ClientChannel)]
        (exec_start ''sleep 5'' \<lparr>timeout = Some 100, throwOnNonZero = None, stdin = StdinUndefined\<rparr>))
       = Pending
   \<and> timer (run \<lparr>timeout = Some 100, throwOnNonZero = None, stdin = StdinUndefined\<rparr>
        ([ExecCallback None (Some ClientChannel)] @ Exit (Some 0) # [TimerFire])
        (exec_start ''sleep 5'' \<lparr>timeout = Some 100, throwOnNonZero = None, stdin = StdinUndefined\<rparr>))
       = Cleared
   \<and> settlements (run \<lparr>timeout = Some 100, throwOnNonZero = None, stdin = StdinUndefined\<rparr>
        ([ExecCallback None (Some ClientChannel)] @ Exit (Some 0) # [TimerFire])
        (exec_start ''sleep 5'' \<lparr>timeout = Some 100, throwOnNonZero = None, stdin = StdinUndefined\<rparr>))
       = [Resolve \<lparr>code = 0, stdout = [], stderr = []\<rparr>]"
  using exec_timeout_priority [of "\<lparr>timeout = Some 100, throwOnNonZero = None, stdin = StdinUndefined\<rparr>"
      100 "[ExecCallback None (Some ClientChannel)]" "''sleep 5''" "[Exit (Some 0)]" "Some 0"]
    exec_timeout_priority [of "\<lparr>timeout = Some 100, throwOnNonZero = None, stdin = StdinUndefined\<rparr>"
      100 "[ExecCallback None (Some ClientChannel)]" "''sleep 5''" "[TimerFire]" "Some 0"]
  by (simp add: exec_start_def truthy_num_def truthy_bool_def on_exec_callback_def on_exit_def
        on_timeout_def clearTimeout_def reject_def resolve_def Let_def code_or_zero_def
        js_num_str_def nat_digits.simps digit_char_def)

subsection \<open>Settlement by the exit event\<close>

lemma code_or_zero_eq: "code_or_zero c = (case c of None \<Rightarrow> 0 | Some k \<Rightarrow> k)"
  by (simp add: code_or_zero_def split: option.splits)

text \<open>
  Claim C3, as amended. Let an exit event with code \<open>c\<close> reach an invocation that is unsettled,
  after the events \<open>pre\<close>. If stdin is falsy or its write was acknowledged, and the
  failure on a non-zero code is not triggered (the option is not true, or \<open>c\<close> is null
  or zero), then \<^verbatim>\<open>exec\<close> resolves, once and for all, with the code (0 for null), the
  concatenation of the chunks the output stream emitted up to the exit event, and the
  concatenation of the chunks the error stream emitted up to it. In particular, without
  stdin and with exit code 0 the result is code 0 with that output.
\<close>

theorem exec_resolves_on_exit:
  assumes "listening (run opts pre (exec_start cmd opts))"
    and "\<not> settled (run opts pre (exec_start cmd opts))"
  shows "((\<not> truthy_stdin (stdin opts) \<or> StdinWritten \<in> set (after_open pre))
            \<and> \<not> (truthy_bool (throwOnNonZero opts) \<and> truthy_num c) \<longrightarrow>
            settlements (run opts (pre @ Exit c # post) (exec_start cmd opts))
              = [Resolve \<lparr> code = (case c of None \<Rightarrow> 0 | Some k \<Rightarrow> k),
                           stdout = concat (stdout_chunks (after_open pre)),
                           stderr = concat (stderr_chunks (after_open pre)) \<rparr>])
       \<and> (stdin opts = StdinUndefined \<longrightarrow>
            settlements (run opts (pre @ Exit (Some 0) # post) (exec_start cmd opts))
              = [Resolve \<lparr> code = 0,
                           stdout = concat (stdout_chunks (after_open pre)),
                           stderr = concat (stderr_chunks (after_open pre)) \<rparr>])"
proof -
  note buf = buffers_reached [OF assms(1)]
  note flag = stdinDone_reached [OF assms(1)]
  have general: "settlements (run opts (pre @ Exit c' # post) (exec_start cmd opts))
      = [Resolve \<lparr> code = (case c' of None \<Rightarrow> 0 | Some k \<Rightarrow> k),
                   stdout = concat (stdout_chunks (after_open pre)),
                   stderr = concat (stderr_chunks (after_open pre)) \<rparr>]"
    if "\<not> truthy_stdin (stdin opts) \<or> StdinWritten \<in> set (after_open pre)"
      and "\<not> (truthy_bool (throwOnNonZero opts) \<and> truthy_num c')" for c'
    using exit_reached [OF assms, of c' post] that buf flag
    by (simp add: code_or_zero_eq)
  have "\<not> (truthy_bool (throwOnNonZero opts) \<and> truthy_num (Some 0))"
    by (simp add: truthy_num_def)
  with general [of "Some 0"] have zero:
    "settlements (run opts (pre @ Exit (Some 0) # post) (exec_start cmd opts))
      = [Resolve \<lparr> code = 0,
                   stdout = concat (stdout_chunks (after_open pre)),
                   stderr = concat (stderr_chunks (after_open pre)) \<rparr>]"
    if "stdin opts = StdinUndefined"
    using that by simp
  from general [of c] zero show ?thesis by blast
qed

theorem exec_resolves_on_exit_witness:
  "listening (run \<lparr>timeout = None, throwOnNonZero = None, stdin = StdinUndefined\<rparr>
       [ExecCallback None (Some ClientChannel), StdoutData ''hel'', StderrData ''warn'', StdoutData ''lo'']
       (exec_start ''echo hello'' \<lparr>timeout = None, throwOnNonZero = None, stdin = StdinUndefined\<rparr>))
   \<and> \<not> settled (run \<lparr>timeout = None, throwOnNonZero = None, stdin = StdinUndefined\<rparr>
       [ExecCallback None (Some ClientChannel), StdoutData ''hel'', StderrData ''warn'', StdoutData ''lo'']
       (exec_start ''echo hello'' \<lparr>timeout = None, throwOnNonZero = None, stdin = StdinUndefined\<rparr>))
   \<and> \<not> truthy_stdin (stdin \<lparr>timeout = None, throwOnNonZero = None, stdin = StdinUndefined\<rparr>)
   \<and> \<not> (truthy_bool (throwOnNonZero \<lparr>timeout = None, throwOnNonZero = None, stdin = StdinUndefined\<rparr>)
          \<and> truthy_num (Some 0))
   \<and> settlements (run \<lparr>timeout = None, throwOnNonZero = None, stdin = StdinUndefined\<rparr>
       ([ExecCallback None (Some ClientChannel), StdoutData ''hel'', StderrData ''warn'', StdoutData ''lo'']
          @ Exit (Some 0) # [StdoutData ''late''])
       (exec_start ''echo hello'' \<lparr>timeout = None, throwOnNonZero = None, stdin = StdinUndefined\<rparr>))
     = [Resolve \<lparr>code = 0, stdout = ''hello'', stderr = ''warn''\<rparr>]"
  using exec_resolves_on_exit [of "\<lparr>timeout = None, throwOnNonZero = None, stdin = StdinUndefined\<rparr>"
      "[ExecCallback None (Some ClientChannel), StdoutData ''hel'', StderrData ''warn'', StdoutData ''lo'']"
      "''echo hello''" "Some 0" "[StdoutData ''late'']"]
  by (simp add: exec_start_def truthy_num_def truthy_bool_def on_exec_callback_def on_exit_def
        clearTimeout_def reject_def resolve_def Let_def code_or_zero_def)

text \<open>
  Claim C3 as it was stated has the result hold all chunks the streams emitted. The exit
  listener settles with what has accumulated when the exit event arrives: a chunk that
  the output stream emits after the exit event is emitted on the stream, and is not in
  the result. Here a command without stdin exits with code 0 and its output arrives
  after the exit event; \<^verbatim>\<open>exec\<close> resolves with empty output.
\<close>

theorem exec_late_output_counterexample:
  "stdin \<lparr>timeout = None, throwOnNonZero = None, stdin = StdinUndefined\<rparr> = StdinUndefined
   \<and> listening (run \<lparr>timeout = None, throwOnNonZero = None, stdin = StdinUndefined\<rparr>
       [ExecCallback None (Some ClientChannel)]
       (exec_start ''echo hello'' \<lparr>timeout = None, throwOnNonZero = None, stdin = StdinUndefined\<rparr>))
   \<and> \<not> settled (run \<lparr>timeout = None, throwOnNonZero = None, stdin = StdinUndefined\<rparr>
       [ExecCallback None (Some ClientChannel)]
       (exec_start ''echo hello'' \<lparr>timeout = None, throwOnNonZero = None, stdin = StdinUndefined\<rparr>))
   \<and> concat (stdout_chunks (after_open
       [ExecCallback None (Some ClientChannel), Exit (Some 0), StdoutData ''hello''])) = ''hello''
   \<and> settlements (run \<lparr>timeout = None, throwOnNonZero = None, stdin = StdinUndefined\<rparr>
       [ExecCallback None (Some ClientChannel), Exit (Some 0), StdoutData ''hello'']
       (exec_start ''echo hello'' \<lparr>timeout = None, throwOnNonZero = None, stdin = StdinUndefined\<rparr>))
     = [Resolve \<lparr>code = 0, stdout = [], stderr = []\<rparr>]
   \<and> stdout_buf (run \<lparr>timeout = None, throwOnNonZero = None, stdin = StdinUndefined\<rparr>
       [ExecCallback None (Some ClientChannel), Exit (Some 0), StdoutData ''hello'']
       (exec_start ''echo hello'' \<lparr>timeout = None, throwOnNonZero = None, stdin = StdinUndefined\<rparr>))
     = ''hello''"
  by (simp add: exec_start_def truthy_num_def truthy_bool_def on_exec_callback_def on_exit_def
        clearTimeout_def reject_def resolve_def Let_def code_or_zero_def)

lemma sublist_mid: "sublist xs (a @ xs @ b)"
  by (rule sublist_appendI)

text \<open>
  Claim C7. Let an exit event with a code \<open>N\<close> other than zero reach an unsettled
  invocation whose stdin is falsy or was acknowledged. If \<^verbatim>\<open>throwOnNonZero\<close> is true,
  \<^verbatim>\<open>exec\<close> rejects with the error whose message is
  \<^verbatim>\<open>command exited with non-zero code: N\<close>, then the quoted error output and the quoted
  output, each on a line of its own; \<open>N\<close> in decimal, the accumulated output and the
  accumulated error output are parts of the message. If the option is false or absent,
  \<^verbatim>\<open>exec\<close> resolves with code \<open>N\<close> and the accumulated output.
\<close>

theorem exec_nonzero_exit:
  assumes "listening (run opts pre (exec_start cmd opts))"
    and "\<not> settled (run opts pre (exec_start cmd opts))"
    and "\<not> truthy_stdin (stdin opts) \<or> StdinWritten \<in> set (after_open pre)"
    and "N \<noteq> 0"
  shows "(throwOnNonZero opts = Some True \<longrightarrow>
           (let out = concat (stdout_chunks (after_open pre));
                err = concat (stderr_chunks (after_open pre));
                msg = ''command exited with non-zero code: '' @ js_num_str N @ [CHR 0x0A] @
                      ''stderr: '' @ [CHR 0x22] @ err @ [CHR 0x22] @ [CHR 0x0A] @
                      ''stdout: '' @ [CHR 0x22] @ out @ [CHR 0x22]
            in settlements (run opts (pre @ Exit (Some N) # post) (exec_start cmd opts))
                 = [Reject (Error msg)]
               \<and> sublist (js_num_str N) msg \<and> sublist out msg \<and> sublist err msg))
       \<and> (throwOnNonZero opts \<noteq> Some True \<longrightarrow>
            settlements (run opts (pre @ Exit (Some N) # post) (exec_start cmd opts))
              = [Resolve \<lparr> code = N,
                           stdout = concat (stdout_chunks (after_open pre)),
                           stderr = concat (stderr_chunks (after_open pre)) \<rparr>])"
proof -
  define out where "out = concat (stdout_chunks (after_open pre))"
  define err where "err = concat (stderr_chunks (after_open pre))"
  define msg where "msg = ''command exited with non-zero code: '' @ js_num_str N @ [CHR 0x0A] @
      ''stderr: '' @ [CHR 0x22] @ err @ [CHR 0x22] @ [CHR 0x0A] @
      ''stdout: '' @ [CHR 0x22] @ out @ [CHR 0x22]"
  note buf = buffers_reached [OF assms(1)]
  have flag: "stdinDone (run opts pre (exec_start cmd opts))"
    using stdinDone_reached [OF assms(1)] assms(3) by simp
  have tn: "truthy_num (Some N)"
    using assms(4) by (simp add: truthy_num_def)
  have cz: "code_or_zero (Some N) = N"
    by (simp add: code_or_zero_def)
  have nm: "nonzero_msg (Some N) (run opts pre (exec_start cmd opts)) = msg"
    using buf by (simp add: nonzero_msg_def resultInfo_def code_str_def msg_def out_def err_def)
  have throw: "settlements (run opts (pre @ Exit (Some N) # post) (exec_start cmd opts))
      = [Reject (Error msg)]" if "throwOnNonZero opts = Some True"
    using exit_reached [OF assms(1,2), of "Some N" post] flag tn nm that
    by (simp add: truthy_bool_def)
  have quiet: "settlements (run opts (pre @ Exit (Some N) # post) (exec_start cmd opts))
      = [Resolve \<lparr> code = N, stdout = out, stderr = err \<rparr>]"
    if "throwOnNonZero opts \<noteq> Some True"
  proof -
    from that have "\<not> truthy_bool (throwOnNonZero opts)"
      by (cases "throwOnNonZero opts") (simp_all add: truthy_bool_def)
    with exit_reached [OF assms(1,2), of "Some N" post] flag cz buf show ?thesis
      by (simp add: out_def err_def)
  qed
  have s1: "sublist (js_num_str N) msg"
    unfolding msg_def by (rule sublist_mid)
  have s2: "sublist err msg"
  proof -
    have "msg = (''command exited with non-zero code: '' @ js_num_str N @ [CHR 0x0A] @
      ''stderr: '' @ [CHR 0x22]) @ err @ ([CHR 0x22] @ [CHR 0x0A] @
      ''stdout: '' @ [CHR 0x22] @ out @ [CHR 0x22])"
      by (simp add: msg_def)
    then show ?thesis by (simp only: sublist_mid)
  qed
  have s3: "sublist out msg"
  proof -
    have "msg = (''command exited with non-zero code: '' @ js_num_str N @ [CHR 0x0A] @
      ''stderr: '' @ [CHR 0x22] @ err @ [CHR 0x22] @ [CHR 0x0A] @
      ''stdout: '' @ [CHR 0x22]) @ out @ [CHR 0x22]"
      by (simp add: msg_def)
    then show ?thesis by (simp only: sublist_mid)
  qed
  from throw quiet s1 s2 s3 show ?thesis
    unfolding Let_def msg_def [symmetric] out_def [symmetric] err_def [symmetric]
    by (simp only: msg_def [symmetric] out_def [symmetric] err_def [symmetric]) blast
qed

theorem exec_nonzero_exit_witness:
  "listening (run \<lparr>timeout = None, throwOnNonZero = Some True, stdin = StdinUndefined\<rparr>
       [ExecCallback None (Some ClientChannel), StderrData ''bad'']
       (exec_start ''exit 7'' \<lparr>timeout = None, throwOnNonZero = Some True, stdin = StdinUndefined\<rparr>))
   \<and> \<not> settled (run \<lparr>timeout = None, throwOnNonZero = Some True, stdin = StdinUndefined\<rparr>
       [ExecCallback None (Some ClientChannel), StderrData ''bad'']
       (exec_start ''exit 7'' \<lparr>timeout = None, throwOnNonZero = Some True, stdin = StdinUndefined\<rparr>))
   \<and> \<not> truthy_stdin (stdin \<lparr>timeout = None, throwOnNonZero = Some True, stdin = StdinUndefined\<rparr>)
   \<and> (7 :: int) \<noteq> 0
   \<and> settlements (run \<lparr>timeout = None, throwOnNonZero = Some True, stdin = StdinUndefined\<rparr>
       ([ExecCallback None (Some ClientChannel), StderrData ''bad''] @ Exit (Some 7) # [])
       (exec_start ''exit 7'' \<lparr>timeout = None, throwOnNonZero = Some True, stdin = StdinUndefined\<rparr>))
     = [Reject (Error (''command exited with non-zero code: 7'' @ [CHR 0x0A] @
          ''stderr: '' @ [CHR 0x22] @ ''bad'' @ [CHR 0x22] @ [CHR 0x0A] @
          ''stdout: '' @ [CHR 0x22] @ [CHR 0x22]))]"
  using exec_nonzero_exit [of "\<lparr>timeout = None, throwOnNonZero = Some True, stdin = StdinUndefined\<rparr>"
      "[ExecCallback None (Some ClientChannel), StderrData ''bad'']" "''exit 7''" 7 "[]"]
  by (simp add: exec_start_def truthy_num_def truthy_bool_def on_exec_callback_def on_exit_def
        clearTimeout_def reject_def resolve_def Let_def code_or_zero_def nonzero_msg_def
        resultInfo_def code_str_def js_num_str_def nat_digits.simps digit_char_def)

text \<open>
  Claim C6, as amended. Let stdin be truthy (a non-empty string or a Buffer), and let an
  exit event with any code, zero included, reach the unsettled invocation before the
  write of stdin was acknowledged. Then \<^verbatim>\<open>exec\<close> rejects, once and for all, with the
  error whose message starts \<^verbatim>\<open>ssh command finished before stdin was written\<close>; that
  message differs from the message of the timeout and from every message of the
  non-zero exit.
\<close>

theorem exec_premature_exit:
  assumes "truthy_stdin (stdin opts)"
    and "listening (run opts pre (exec_start cmd opts))"
    and "\<not> settled (run opts pre (exec_start cmd opts))"
    and "StdinWritten \<notin> set (after_open pre)"
  shows "(let msg = ''ssh command finished before stdin was written: code: '' @ code_str c @
                    [CHR 0x0A] @
                    ''stderr: '' @ [CHR 0x22] @ concat (stderr_chunks (after_open pre)) @
                    [CHR 0x22] @ [CHR 0x0A] @
                    ''stdout: '' @ [CHR 0x22] @ concat (stdout_chunks (after_open pre)) @
                    [CHR 0x22]
          in settlements (run opts (pre @ Exit c # post) (exec_start cmd opts))
               = [Reject (Error msg)]
             \<and> msg \<noteq> timeout_msg opts
             \<and> (\<forall>c' s'. msg \<noteq> nonzero_msg c' s'))"
proof -
  note buf = buffers_reached [OF assms(2)]
  have flag: "\<not> stdinDone (run opts pre (exec_start cmd opts))"
    using stdinDone_reached [OF assms(2)] assms(1,4) by simp
  have pm: "premature_msg c (run opts pre (exec_start cmd opts)) =
      ''ssh command finished before stdin was written: code: '' @ code_str c @ [CHR 0x0A] @
      ''stderr: '' @ [CHR 0x22] @ concat (stderr_chunks (after_open pre)) @
      [CHR 0x22] @ [CHR 0x0A] @
      ''stdout: '' @ [CHR 0x22] @ concat (stdout_chunks (after_open pre)) @ [CHR 0x22]"
    using buf by (simp add: premature_msg_def resultInfo_def)
  have "settlements (run opts (pre @ Exit c # post) (exec_start cmd opts))
      = [Reject (Error (premature_msg c (run opts pre (exec_start cmd opts))))]"
    using exit_reached [OF assms(2,3), of c post] flag by simp
  moreover have "premature_msg c (run opts pre (exec_start cmd opts)) \<noteq> timeout_msg opts"
    by (rule premature_not_timeout)
  moreover have "\<forall>c' s'. premature_msg c (run opts pre (exec_start cmd opts)) \<noteq> nonzero_msg c' s'"
    by (simp add: premature_not_nonzero)
  ultimately show ?thesis
    unfolding Let_def pm [symmetric] by blast
qed

theorem exec_premature_exit_witness:
  "truthy_stdin (stdin \<lparr>timeout = None, throwOnNonZero = None, stdin = StdinString ''data''\<rparr>)
   \<and> listening (run \<lparr>timeout = None, throwOnNonZero = None, stdin = StdinString ''data''\<rparr>
       [ExecCallback None (Some ClientChannel)]
       (exec_start ''true'' \<lparr>timeout = None, throwOnNonZero = None, stdin = StdinString ''data''\<rparr>))
   \<and> \<not> settled (run \<lparr>timeout = None, throwOnNonZero = None, stdin = StdinString ''data''\<rparr>
       [ExecCallback None (Some ClientChannel)]
       (exec_start ''true'' \<lparr>timeout = None, throwOnNonZero = None, stdin = StdinString ''data''\<rparr>))
   \<and> StdinWritten \<notin> set (after_open [ExecCallback None (Some ClientChannel)])
   \<and> settlements (run \<lparr>timeout = None, throwOnNonZero = None, stdin = StdinString ''data''\<rparr>
       ([ExecCallback None (Some ClientChannel)] @ Exit (Some 0) # [StdinWritten])
       (exec_start ''true'' \<lparr>timeout = None, throwOnNonZero = None, stdin = StdinString ''data''\<rparr>))
     = [Reject (Error (''ssh command finished before stdin was written: code: 0'' @ [CHR 0x0A] @
          ''stderr: '' @ [CHR 0x22] @ [CHR 0x22] @ [CHR 0x0A] @
          ''stdout: '' @ [CHR 0x22] @ [CHR 0x22]))]"
  using exec_premature_exit [of "\<lparr>timeout = None, throwOnNonZero = None, stdin = StdinString ''data''\<rparr>"
      "[ExecCallback None (Some ClientChannel)]" "''true''" "Some 0" "[StdinWritten]"]
  by (simp add: exec_start_def truthy_num_def truthy_bool_def on_exec_callback_def on_exit_def
        clearTimeout_def reject_def resolve_def Let_def code_or_zero_def premature_msg_def
        resultInfo_def code_str_def js_num_str_def nat_digits.simps digit_char_def)

text \<open>
  Claim C6 as it was stated fails when the stdin supplied is the empty string (as
  \<^verbatim>\<open>execScript\<close> supplies for an empty script): nothing is written, no write is ever
  acknowledged, and an exit with code 0 resolves.
\<close>

theorem exec_empty_stdin_exit_counterexample:
  "stdin \<lparr>timeout = None, throwOnNonZero = None, stdin = StdinString ''''\<rparr> \<noteq> StdinUndefined
   \<and> StdinWritten \<notin> set [ExecCallback None (Some ClientChannel)]
   \<and> \<not> settled (run \<lparr>timeout = None, throwOnNonZero = None, stdin = StdinString ''''\<rparr>
       [ExecCallback None (Some ClientChannel)]
       (exec_start ''bash -s'' \<lparr>timeout = None, throwOnNonZero = None, stdin = StdinString ''''\<rparr>))
   \<and> settlements (run \<lparr>timeout = None, throwOnNonZero = None, stdin = StdinString ''''\<rparr>
       [ExecCallback None (Some ClientChannel), Exit (Some 0)]
       (exec_start ''bash -s'' \<lparr>timeout = None, throwOnNonZero = None, stdin = StdinString ''''\<rparr>))
     = [Resolve \<lparr>code = 0, stdout = [], stderr = []\<rparr>]"
  by (simp add: exec_start_def truthy_num_def truthy_bool_def on_exec_callback_def on_exit_def
        clearTimeout_def reject_def resolve_def Let_def code_or_zero_def)

subsection \<open>Falsy stdin\<close>

lemma deliver_falsy_stdin:
  "\<not> truthy_stdin (stdin opts) \<Longrightarrow>
     deliver opts e s = deliver (opts\<lparr>stdin := StdinUndefined\<rparr>) e s"
  by (cases e)
     (simp_all add: on_exec_callback_def on_exit_def on_timeout_def timeout_msg_def Let_def
        split: option.splits)

lemma run_falsy_stdin:
  "\<not> truthy_stdin (stdin opts) \<Longrightarrow>
     run opts es s = run (opts\<lparr>stdin := StdinUndefined\<rparr>) es s"
proof (induction es arbitrary: s)
  case Nil
  then show ?case by simp
next
  case (Cons e es)
  then show ?case
    using deliver_falsy_stdin [of opts e s] by (simp del: deliver.simps)
qed

lemma no_premature_deliver:
  assumes "exec_inv opts s" and "\<not> truthy_stdin (stdin opts)"
    and "\<forall>c s'. Reject (Error (premature_msg c s')) \<notin> set (settlements s)"
  shows "\<forall>c s'. Reject (Error (premature_msg c s')) \<notin> set (settlements (deliver opts e s))"
proof (cases "settled s")
  case True
  with assms(3) show ?thesis by (simp add: settlements_deliver_settled del: deliver.simps)
next
  case False
  with assms(1) have empty: "settlements s = []" by (simp add: exec_inv_def)
  show ?thesis
  proof (cases e)
    case (Exit x)
    show ?thesis
    proof (cases "listening s")
      case True
      with assms(1,2) have "stdinDone s" by (simp add: exec_inv_def)
      with settlements_exit [OF True False empty, of opts x] Exit show ?thesis
        by (simp add: premature_not_nonzero del: deliver.simps)
    next
      case False
      with Exit assms(3) show ?thesis by simp
    qed
  next
    case TimerFire
    with assms(3) empty show ?thesis
      by (simp add: on_timeout_def reject_def premature_not_timeout)
  next
    case (ExecCallback err chan)
    with assms(3) show ?thesis
      by (simp add: on_exec_callback_def Let_def split: option.splits)
  next
    case (StdoutData d)
    with assms(3) show ?thesis by simp
  next
    case (StderrData d)
    with assms(3) show ?thesis by simp
  next
    case StdinWritten
    with assms(3) show ?thesis by simp
  qed
qed

lemma no_premature_run:
  "exec_inv opts s \<Longrightarrow> \<not> truthy_stdin (stdin opts) \<Longrightarrow>
     \<forall>c s'. Reject (Error (premature_msg c s')) \<notin> set (settlements s) \<Longrightarrow>
     \<forall>c s'. Reject (Error (premature_msg c s')) \<notin> set (settlements (run opts es s))"
proof (induction es arbitrary: s)
  case Nil
  then show ?case by simp
next
  case (Cons e es)
  have "\<forall>c s'. Reject (Error (premature_msg c s'))
      \<notin> set (settlements (run opts es (deliver opts e s)))"
    using Cons.prems
    by (intro Cons.IH exec_inv_deliver no_premature_deliver)
  then show ?case by simp
qed

text \<open>
  Claim C10. When the \<^verbatim>\<open>stdin\<close> option is falsy (the empty string, or undefined), the
  invocation passes through the same states as with \<^verbatim>\<open>stdin\<close> undefined, whatever the
  events: nothing is ever handed to \<^verbatim>\<open>channel.stdin.end\<close> (nothing written, the stream
  not closed), \<^verbatim>\<open>stdinDone\<close> is true from the moment the channel callback has run, and
  no settlement is ever the premature-exit rejection.
\<close>

theorem exec_falsy_stdin_as_absent:
  assumes "\<not> truthy_stdin (stdin opts)"
  shows "run opts es (exec_start cmd opts)
           = run (opts\<lparr>stdin := StdinUndefined\<rparr>) es
               (exec_start cmd (opts\<lparr>stdin := StdinUndefined\<rparr>))
       \<and> stdin_ends (run opts es (exec_start cmd opts)) = []
       \<and> (listening (run opts es (exec_start cmd opts))
            \<longrightarrow> stdinDone (run opts es (exec_start cmd opts)))
       \<and> (\<forall>c s'. Reject (Error (premature_msg c s'))
            \<notin> set (settlements (run opts es (exec_start cmd opts))))"
proof -
  have inv: "exec_inv opts (run opts es (exec_start cmd opts))"
    by (rule exec_inv_run [OF exec_inv_start])
  have same: "exec_start cmd (opts\<lparr>stdin := StdinUndefined\<rparr>) = exec_start cmd opts"
    by (simp add: exec_start_def)
  have eq: "run opts es (exec_start cmd opts)
      = run (opts\<lparr>stdin := StdinUndefined\<rparr>) es (exec_start cmd (opts\<lparr>stdin := StdinUndefined\<rparr>))"
    unfolding same using assms by (rule run_falsy_stdin)
  have ends: "stdin_ends (run opts es (exec_start cmd opts)) = []"
    using inv assms by (auto simp: exec_inv_def)
  have flag: "listening (run opts es (exec_start cmd opts))
      \<longrightarrow> stdinDone (run opts es (exec_start cmd opts))"
    using inv assms by (simp add: exec_inv_def)
  have "\<forall>c s'. Reject (Error (premature_msg c s'))
      \<notin> set (settlements (run opts es (exec_start cmd opts)))"
    using exec_inv_start assms by (rule no_premature_run) (simp add: exec_start_def)
  with eq ends flag show ?thesis by blast
qed

theorem exec_falsy_stdin_as_absent_witness:
  "\<not> truthy_stdin (stdin \<lparr>timeout = None, throwOnNonZero = None, stdin = StdinString ''''\<rparr>)
   \<and> run \<lparr>timeout = None, throwOnNonZero = None, stdin = StdinString ''''\<rparr>
       [ExecCallback None (Some ClientChannel), StdoutData ''x'', Exit (Some 0)]
       (exec_start ''cat'' \<lparr>timeout = None, throwOnNonZero = None, stdin = StdinString ''''\<rparr>)
     = run \<lparr>timeout = None, throwOnNonZero = None, stdin = StdinUndefined\<rparr>
       [ExecCallback None (Some ClientChannel), StdoutData ''x'', Exit (Some 0)]
       (exec_start ''cat'' \<lparr>timeout = None, throwOnNonZero = None, stdin = StdinUndefined\<rparr>)
   \<and> stdin_ends (run \<lparr>timeout = None, throwOnNonZero = None, stdin = StdinString ''''\<rparr>
       [ExecCallback None (Some ClientChannel), StdoutData ''x'', Exit (Some 0)]
       (exec_start ''cat'' \<lparr>timeout = None, throwOnNonZero = None, stdin = StdinString ''''\<rparr>)) = []
   \<and> settlements (run \<lparr>timeout = None, throwOnNonZero = None, stdin = StdinString ''''\<rparr>
       [ExecCallback None (Some ClientChannel), StdoutData ''x'', Exit (Some 0)]
       (exec_start ''cat'' \<lparr>timeout = None, throwOnNonZero = None, stdin = StdinString ''''\<rparr>))
     = [Resolve \<lparr>code = 0, stdout = ''x'', stderr = []\<rparr>]"
  using exec_falsy_stdin_as_absent [of "\<lparr>timeout = None, throwOnNonZero = None, stdin = StdinString ''''\<rparr>"
      "[ExecCallback None (Some ClientChannel), StdoutData ''x'', Exit (Some 0)]" "''cat''"]
  by (simp add: exec_start_def truthy_num_def truthy_bool_def on_exec_callback_def on_exit_def
        clearTimeout_def reject_def resolve_def Let_def code_or_zero_def)

subsection \<open>Failure to open the channel\<close>

lemma failed_open_deliver:
  assumes "callback_ran s" and "\<not> listening s"
    and "set (settlements s) \<subseteq> {Reject (Error (timeout_msg opts))}"
  shows "set (settlements (deliver opts e s)) \<subseteq> {Reject (Error (timeout_msg opts))}
       \<and> uncaught (deliver opts e s) = uncaught s
       \<and> (timer s = NoTimer \<longrightarrow> timer (deliver opts e s) = NoTimer
             \<and> settlements (deliver opts e s) = settlements s)"
  using assms by (cases e) (auto simp: on_timeout_def reject_def)

lemma failed_open_run:
  "callback_ran s \<Longrightarrow> \<not> listening s \<Longrightarrow>
     set (settlements s) \<subseteq> {Reject (Error (timeout_msg opts))} \<Longrightarrow>
     set (settlements (run opts es s)) \<subseteq> {Reject (Error (timeout_msg opts))}
     \<and> uncaught (run opts es s) = uncaught s
     \<and> (timer s = NoTimer \<longrightarrow> settlements (run opts es s) = settlements s)"
proof (induction es arbitrary: s)
  case Nil
  then show ?case by simp
next
  case (Cons e es)
  note d = failed_open_deliver [OF Cons.prems, of e]
  note c = closed_deliver [OF Cons.prems(1,2), of opts e]
  from d c have "set (settlements (run opts es (deliver opts e s)))
        \<subseteq> {Reject (Error (timeout_msg opts))}
     \<and> uncaught (run opts es (deliver opts e s)) = uncaught (deliver opts e s)
     \<and> (timer (deliver opts e s) = NoTimer
          \<longrightarrow> settlements (run opts es (deliver opts e s)) = settlements (deliver opts e s))"
    by (intro Cons.IH) simp_all
  with d show ?case by (simp del: deliver.simps)
qed

text \<open>When the transport reports that the channel could not be opened, the open failure
  is never passed to \<^verbatim>\<open>reject\<close>: a TypeError escapes the callback, and the promise
  stays pending unless a configured timeout rejects it.\<close>

lemma open_failure_never_reported:
  "uncaught (run opts (ExecCallback (Some e) None # es) (exec_start cmd opts)) = [TypeError]
   \<and> set (settlements (run opts (ExecCallback (Some e) None # es) (exec_start cmd opts)))
        \<subseteq> {Reject (Error (timeout_msg opts))}
   \<and> (\<not> truthy_num (timeout opts) \<longrightarrow>
        settlements (run opts (ExecCallback (Some e) None # es) (exec_start cmd opts)) = [])"
proof -
  define s where "s = deliver opts (ExecCallback (Some e) None) (exec_start cmd opts)"
  have s: "callback_ran s" "\<not> listening s" "settlements s = []" "uncaught s = [TypeError]"
    "\<not> truthy_num (timeout opts) \<longrightarrow> timer s = NoTimer"
    by (simp_all add: s_def exec_start_def on_exec_callback_def)
  from s(3) have "set (settlements s) \<subseteq> {Reject (Error (timeout_msg opts))}" by simp
  from failed_open_run [OF s(1,2) this, of es] s(3,4,5) show ?thesis
    by (simp add: s_def del: deliver.simps)
qed

text \<open>
  Claim C4 says that a failure to open the command channel rejects the operation at
  once. The code at such a failure: the transport calls the callback with the error and
  no channel; without a timeout neither \<^verbatim>\<open>resolve\<close> nor \<^verbatim>\<open>reject\<close> is called and a
  TypeError has escaped the callback; with a timeout of 100 ms the settlement, when the
  timer fires, is the timeout rejection, not the open failure.
\<close>

theorem exec_open_failure_evaluation:
  "settlements (run \<lparr>timeout = None, throwOnNonZero = None, stdin = StdinUndefined\<rparr>
       [ExecCallback (Some (Error ''(SSH) Channel open failure'')) None]
       (exec_start ''ls'' \<lparr>timeout = None, throwOnNonZero = None, stdin = StdinUndefined\<rparr>)) = []
   \<and> uncaught (run \<lparr>timeout = None, throwOnNonZero = None, stdin = StdinUndefined\<rparr>
       [ExecCallback (Some (Error ''(SSH) Channel open failure'')) None]
       (exec_start ''ls'' \<lparr>timeout = None, throwOnNonZero = None, stdin = StdinUndefined\<rparr>))
     = [TypeError]
   \<and> settlements (run \<lparr>timeout = Some 100, throwOnNonZero = None, stdin = StdinUndefined\<rparr>
       [ExecCallback (Some (Error ''(SSH) Channel open failure'')) None, TimerFire]
       (exec_start ''ls'' \<lparr>timeout = Some 100, throwOnNonZero = None, stdin = StdinUndefined\<rparr>))
     = [Reject (Error ''exec timeout of 100 ms expired'')]"
  by (simp add: exec_start_def truthy_num_def on_exec_callback_def on_timeout_def reject_def
        timeout_msg_def timeout_str_def js_num_str_def nat_digits.simps digit_char_def)

subsection \<open>\<^verbatim>\<open>execScript\<close> as an invocation of \<^verbatim>\<open>exec\<close>\<close>

lemma exec_cmd_deliver: "exec_cmd (deliver opts e s) = exec_cmd s"
  by (cases e)
     (auto simp: on_exec_callback_def on_exit_def on_timeout_def clearTimeout_def
        reject_def resolve_def Let_def split: option.splits)

lemma exec_cmd_run: "exec_cmd (run opts es s) = exec_cmd s"
  by (induction es arbitrary: s) (simp_all add: exec_cmd_deliver del: deliver.simps)

lemma stdin_ends_run_listening:
  "callback_ran s \<Longrightarrow> listening s \<Longrightarrow> stdin_ends (run opts es s) = stdin_ends s"
proof (induction es arbitrary: s)
  case Nil
  then show ?case by simp
next
  case (Cons e es)
  note d = open_state_deliver [OF Cons.prems, of opts e]
  from d have "stdin_ends (run opts es (deliver opts e s)) = stdin_ends (deliver opts e s)"
    by (intro Cons.IH) simp_all
  with d show ?case by (simp del: deliver.simps)
qed

lemma stdin_ends_run_fresh:
  "\<not> callback_ran s \<Longrightarrow> \<not> listening s \<Longrightarrow> stdin_ends s = [] \<Longrightarrow>
     listening (run opts es s) \<Longrightarrow>
     stdin_ends (run opts es s) = (if truthy_stdin (stdin opts) then [stdin opts] else [])"
proof (induction es arbitrary: s)
  case Nil
  then show ?case by simp
next
  case (Cons e es)
  show ?case
  proof (cases e)
    case (ExecCallback err chan)
    show ?thesis
    proof (cases chan)
      case None
      from Cons.prems fail_deliver [of s opts err]
      have "callback_ran (deliver opts (ExecCallback err None) s)"
        and "\<not> listening (deliver opts (ExecCallback err None) s)"
        by blast+
      then have "\<not> listening (run opts es (deliver opts (ExecCallback err None) s))"
        by (rule closed_run)
      with Cons.prems(4) ExecCallback None show ?thesis by simp
    next
      case (Some ch)
      note d = open_deliver [OF Cons.prems(1), of opts err ch]
      have cb: "callback_ran (deliver opts (ExecCallback err (Some ch)) s)"
        by (simp add: on_exec_callback_def Let_def)
      from d have "stdin_ends (run opts es (deliver opts (ExecCallback err (Some ch)) s))
        = (if truthy_stdin (stdin opts) then [stdin opts] else [])"
        using Cons.prems(3) by (simp add: stdin_ends_run_listening [OF cb] del: deliver.simps)
      with ExecCallback Some show ?thesis by (simp del: deliver.simps)
    qed
  next
    case (StdoutData d)
    with Cons.prems fresh_deliver [of s e opts] Cons.IH [of "deliver opts e s"]
    show ?thesis by (simp del: deliver.simps)
  next
    case (StderrData d)
    with Cons.prems fresh_deliver [of s e opts] Cons.IH [of "deliver opts e s"]
    show ?thesis by (simp del: deliver.simps)
  next
    case (Exit c)
    with Cons.prems fresh_deliver [of s e opts] Cons.IH [of "deliver opts e s"]
    show ?thesis by (simp del: deliver.simps)
  next
    case StdinWritten
    with Cons.prems fresh_deliver [of s e opts] Cons.IH [of "deliver opts e s"]
    show ?thesis by (simp del: deliver.simps)
  next
    case TimerFire
    with Cons.prems fresh_deliver [of s e opts] Cons.IH [of "deliver opts e s"]
    show ?thesis by (simp del: deliver.simps)
  qed
qed

lemma stdin_ends_reached:
  "listening (run opts es (exec_start cmd opts)) \<Longrightarrow>
     stdin_ends (run opts es (exec_start cmd opts))
       = (if truthy_stdin (stdin opts) then [stdin opts] else [])"
  using stdin_ends_run_fresh [of "exec_start cmd opts" opts es] by (simp add: exec_start_def)

lemma execScript_unfold:
  "execScript script options =
     (\<lparr> timeout = timeout options, throwOnNonZero = throwOnNonZero options,
         stdin = StdinString script \<rparr>,
      exec_start (if sudo options = Some True then ''sudo bash -s'' else ''bash -s'')
        \<lparr> timeout = timeout options, throwOnNonZero = throwOnNonZero options,
          stdin = StdinString script \<rparr>)"
  by (cases "sudo options")
     (simp_all add: execScript_def exec_def Let_def truthy_bool_def other_options.truncate_def)

text \<open>
  Claim C9. For every script and option object, \<^verbatim>\<open>execScript\<close> is the specification's
  \<^verbatim>\<open>executeScript\<close>, that is \<^verbatim>\<open>exec\<close> of the command \<^verbatim>\<open>sudo bash -s\<close> when \<^verbatim>\<open>sudo\<close> is
  true and \<^verbatim>\<open>bash -s\<close> otherwise, with \<^verbatim>\<open>timeout\<close> and \<^verbatim>\<open>throwOnNonZero\<close> passed through
  and \<^verbatim>\<open>stdin\<close> set to the script. Whatever events follow, that command is the one
  handed to the transport, and once the channel is open a non-empty script is what was
  handed to the channel's input stream, once.
\<close>

theorem execScript_is_exec:
  "execScript script options = spec_executeScript script options
   \<and> execScript script options
       = exec (if sudo options = Some True then ''sudo bash -s'' else ''bash -s'')
           \<lparr> timeout = timeout options, throwOnNonZero = throwOnNonZero options,
             stdin = StdinString script \<rparr>
   \<and> exec_cmd (snd (invocation_run es (execScript script options)))
       = (if sudo options = Some True then ''sudo bash -s'' else ''bash -s'')
   \<and> (listening (snd (invocation_run es (execScript script options))) \<and> script \<noteq> []
        \<longrightarrow> stdin_ends (snd (invocation_run es (execScript script options)))
              = [StdinString script])"
proof -
  have a: "execScript script options = spec_executeScript script options"
    by (simp add: execScript_unfold spec_executeScript_def exec_def)
  have b: "execScript script options
       = exec (if sudo options = Some True then ''sudo bash -s'' else ''bash -s'')
           \<lparr> timeout = timeout options, throwOnNonZero = throwOnNonZero options,
             stdin = StdinString script \<rparr>"
    by (simp add: execScript_unfold exec_def)
  have c: "exec_cmd (snd (invocation_run es (execScript script options)))
       = (if sudo options = Some True then ''sudo bash -s'' else ''bash -s'')"
    by (simp add: execScript_unfold invocation_run_def exec_cmd_run) (simp add: exec_start_def)
  have d: "stdin_ends (snd (invocation_run es (execScript script options)))
      = [StdinString script]"
    if "listening (snd (invocation_run es (execScript script options)))" "script \<noteq> []"
    using that stdin_ends_reached [of
        "\<lparr> timeout = timeout options, throwOnNonZero = throwOnNonZero options,
           stdin = StdinString script \<rparr>" es
        "if sudo options = Some True then ''sudo bash -s'' else ''bash -s''"]
    by (simp add: execScript_unfold invocation_run_def)
  from a b c d show ?thesis by blast
qed

theorem execScript_is_exec_witness:
  "listening (snd (invocation_run [ExecCallback None (Some ClientChannel)]
       (execScript ''echo hi'' \<lparr>timeout = None, throwOnNonZero = None, sudo = Some True\<rparr>)))
   \<and> ''echo hi'' \<noteq> []
   \<and> exec_cmd (snd (invocation_run [ExecCallback None (Some ClientChannel)]
       (execScript ''echo hi'' \<lparr>timeout = None, throwOnNonZero = None, sudo = Some True\<rparr>)))
     = ''sudo bash -s''
   \<and> stdin_ends (snd (invocation_run [ExecCallback None (Some ClientChannel)]
       (execScript ''echo hi'' \<lparr>timeout = None, throwOnNonZero = None, sudo = Some True\<rparr>)))
     = [StdinString ''echo hi'']"
  using execScript_is_exec [of "''echo hi''"
      "\<lparr>timeout = None, throwOnNonZero = None, sudo = Some True\<rparr>"
      "[ExecCallback None (Some ClientChannel)]"]
  by (simp add: execScript_def spec_executeScript_def exec_def invocation_run_def
        exec_start_def truthy_bool_def truthy_num_def on_exec_callback_def Let_def
        other_options.truncate_def)

section \<open>Properties of the connection manager\<close>

subsection \<open>Listener lists\<close>

lemma set_fold_remove1: "set (fold remove1 ks xs) \<subseteq> set xs"
proof (induction ks arbitrary: xs)
  case Nil
  then show ?case by simp
next
  case (Cons a ks)
  have "set (fold remove1 ks (remove1 a xs)) \<subseteq> set (remove1 a xs)" by (rule Cons.IH)
  also have "\<dots> \<subseteq> set xs" by (rule set_remove1_subset)
  finally show ?case by simp
qed

lemma distinct_fold_remove1: "distinct xs \<Longrightarrow> distinct (fold remove1 ks xs)"
  by (induction ks arbitrary: xs) simp_all

lemma fold_remove1_removes:
  "distinct xs \<Longrightarrow> k \<in> set ks \<Longrightarrow> k \<notin> set (fold remove1 ks xs)"
proof (induction ks arbitrary: xs)
  case Nil
  then show ?case by simp
next
  case (Cons a ks)
  show ?case
  proof (cases "k = a")
    case True
    from Cons.prems(1) have "k \<notin> set (remove1 a xs)" using True by simp
    with set_fold_remove1 [of ks "remove1 a xs"] show ?thesis by auto
  next
    case False
    with Cons.prems have "k \<in> set ks" by simp
    with Cons.IH [of "remove1 a xs"] Cons.prems(1) show ?thesis by simp
  qed
qed

lemma fold_remove1_keeps:
  "k \<notin> set ks \<Longrightarrow> k \<in> set (fold remove1 ks xs) \<longleftrightarrow> k \<in> set xs"
  by (induction ks arbitrary: xs) auto

lemma fold_onReady:
  "ready_listeners (fold onReady ks s) = fold remove1 ks (ready_listeners s)
   \<and> error_listeners (fold onReady ks s) = fold remove1 ks (error_listeners s)
   \<and> connect_log (fold onReady ks s) = connect_log s @ map (\<lambda>k. (k, ConnectResolve)) ks
   \<and> connectStarted (fold onReady ks s) = connectStarted s
   \<and> connect_calls (fold onReady ks s) = connect_calls s"
  by (induction ks arbitrary: s) (simp_all add: onReady_def)

lemma fold_onError:
  "ready_listeners (fold (onError err) ks s) = fold remove1 ks (ready_listeners s)
   \<and> error_listeners (fold (onError err) ks s) = fold remove1 ks (error_listeners s)
   \<and> connect_log (fold (onError err) ks s)
       = connect_log s @ map (\<lambda>k. (k, ConnectReject (VError err ''SSH connect failed''))) ks
   \<and> connectStarted (fold (onError err) ks s) = connectStarted s
   \<and> connect_calls (fold (onError err) ks s) = connect_calls s"
  by (induction ks arbitrary: s) (simp_all add: onError_def)

lemma filter_tagged:
  "distinct ks \<Longrightarrow>
     map snd (filter (\<lambda>p. fst p = k) (map (\<lambda>j. (j, r)) ks)) = (if k \<in> set ks then [r] else [])"
  by (induction ks) auto

lemma settlements_of_emit_ready:
  "distinct (ready_listeners s) \<Longrightarrow>
     settlements_of k (emit_ready s)
       = settlements_of k s @ (if k \<in> set (ready_listeners s) then [ConnectResolve] else [])"
  by (simp add: settlements_of_def emit_ready_def fold_onReady filter_tagged)

lemma settlements_of_emit_error:
  "distinct (error_listeners s) \<Longrightarrow>
     settlements_of k (emit_error err s)
       = settlements_of k s
         @ (if k \<in> set (error_listeners s)
            then [ConnectReject (VError err ''SSH connect failed'')] else [])"
  by (simp add: settlements_of_def emit_error_def fold_onError filter_tagged)

lemma list_all_fold_remove1: "list_all P xs \<Longrightarrow> list_all P (fold remove1 ks xs)"
  using set_fold_remove1 [of ks xs] by (auto simp: list_all_iff)

lemma client_inv_new: "client_inv new_client"
  by (simp add: client_inv_def new_client_def)

lemma client_inv_connect: "client_inv s \<Longrightarrow> client_inv (snd (connect s))"
  by (auto simp: client_inv_def connect_def Let_def list_all_iff)

lemma client_inv_emit_ready: "client_inv s \<Longrightarrow> client_inv (emit_ready s)"
  by (simp add: client_inv_def emit_ready_def fold_onReady distinct_fold_remove1
        list_all_fold_remove1)
     (simp add: list_all_iff)

lemma client_inv_emit_error: "client_inv s \<Longrightarrow> client_inv (emit_error err s)"
  by (simp add: client_inv_def emit_error_def fold_onError distinct_fold_remove1
        list_all_fold_remove1)
     (simp add: list_all_iff)

lemma client_inv_step: "client_inv s \<Longrightarrow> client_inv (client_step e s)"
  by (cases e)
     (simp_all add: client_inv_connect client_inv_emit_ready client_inv_emit_error
        connectIfNeeded_def split_beta)

lemma client_inv_run: "client_inv s \<Longrightarrow> client_inv (client_run es s)"
  by (induction es arbitrary: s) (simp_all add: client_inv_step)

subsection \<open>Settlement of \<^verbatim>\<open>connect()\<close>\<close>

text \<open>A promise whose listeners are gone is never settled again.\<close>

lemma done_step:
  assumes "client_inv s" and "k < connect_calls s"
    and "k \<notin> set (ready_listeners s)" and "k \<notin> set (error_listeners s)"
  shows "settlements_of k (client_step e s) = settlements_of k s
       \<and> k < connect_calls (client_step e s)
       \<and> k \<notin> set (ready_listeners (client_step e s))
       \<and> k \<notin> set (error_listeners (client_step e s))"
proof (cases e)
  case CallConnect
  with assms show ?thesis
    by (simp add: connect_def Let_def settlements_of_def)
next
  case CallConnectIfNeeded
  with assms show ?thesis
    by (simp add: connectIfNeeded_def split_beta connect_def Let_def settlements_of_def)
next
  case EmitReady
  have "k \<notin> set (fold remove1 (ready_listeners s) (ready_listeners s))"
    and "k \<notin> set (fold remove1 (ready_listeners s) (error_listeners s))"
    using assms(3,4) set_fold_remove1 by fastforce+
  with EmitReady assms show ?thesis
    by (simp add: settlements_of_emit_ready client_inv_def)
       (simp add: emit_ready_def fold_onReady)
next
  case (EmitError err)
  have "k \<notin> set (fold remove1 (error_listeners s) (ready_listeners s))"
    and "k \<notin> set (fold remove1 (error_listeners s) (error_listeners s))"
    using assms(3,4) set_fold_remove1 by fastforce+
  with EmitError assms show ?thesis
    by (simp add: settlements_of_emit_error client_inv_def)
       (simp add: emit_error_def fold_onError)
qed

lemma done_run:
  "client_inv s \<Longrightarrow> k < connect_calls s \<Longrightarrow>
     k \<notin> set (ready_listeners s) \<Longrightarrow> k \<notin> set (error_listeners s) \<Longrightarrow>
     settlements_of k (client_run es s) = settlements_of k s
     \<and> k \<notin> set (ready_listeners (client_run es s))
     \<and> k \<notin> set (error_listeners (client_run es s))"
proof (induction es arbitrary: s)
  case Nil
  then show ?case by simp
next
  case (Cons e es)
  note d = done_step [OF Cons.prems, of e]
  from d Cons.prems(1) have "settlements_of k (client_run es (client_step e s))
      = settlements_of k (client_step e s)
     \<and> k \<notin> set (ready_listeners (client_run es (client_step e s)))
     \<and> k \<notin> set (error_listeners (client_run es (client_step e s)))"
    by (intro Cons.IH client_inv_step) simp_all
  with d show ?case by simp
qed

text \<open>A promise whose two listeners are registered is settled by the first signal.\<close>

lemma pending_connect_step:
  assumes "client_inv s" and "k \<in> set (ready_listeners s)" and "k \<in> set (error_listeners s)"
    and "settlements_of k s = []"
    and "e = CallConnect \<or> e = CallConnectIfNeeded"
  shows "k \<in> set (ready_listeners (client_step e s))
       \<and> k \<in> set (error_listeners (client_step e s))
       \<and> settlements_of k (client_step e s) = []"
  using assms
  by (auto simp: connectIfNeeded_def split_beta connect_def Let_def settlements_of_def)

lemma pending_ready_step:
  assumes "client_inv s" and "k \<in> set (ready_listeners s)" and "k \<in> set (error_listeners s)"
    and "settlements_of k s = []"
  shows "settlements_of k (emit_ready s) = [ConnectResolve]
       \<and> k < connect_calls (emit_ready s)
       \<and> k \<notin> set (ready_listeners (emit_ready s))
       \<and> k \<notin> set (error_listeners (emit_ready s))"
proof -
  from assms(1) have d: "distinct (ready_listeners s)" "distinct (error_listeners s)"
    and lt: "list_all (\<lambda>k. k < connect_calls s) (ready_listeners s)"
    by (simp_all add: client_inv_def)
  from lt assms(2) have "k < connect_calls s" by (simp add: list_all_iff)
  moreover have "k \<notin> set (fold remove1 (ready_listeners s) (ready_listeners s))"
    using d(1) assms(2) by (rule fold_remove1_removes)
  moreover have "k \<notin> set (fold remove1 (ready_listeners s) (error_listeners s))"
    using d(2) assms(2) by (rule fold_remove1_removes)
  ultimately show ?thesis
    using assms(2,4) d(1)
    by (simp add: settlements_of_emit_ready) (simp add: emit_ready_def fold_onReady)
qed

lemma pending_error_step:
  assumes "client_inv s" and "k \<in> set (ready_listeners s)" and "k \<in> set (error_listeners s)"
    and "settlements_of k s = []"
  shows "settlements_of k (emit_error err s) = [ConnectReject (VError err ''SSH connect failed'')]
       \<and> k < connect_calls (emit_error err s)
       \<and> k \<notin> set (ready_listeners (emit_error err s))
       \<and> k \<notin> set (error_listeners (emit_error err s))"
proof -
  from assms(1) have d: "distinct (ready_listeners s)" "distinct (error_listeners s)"
    and lt: "list_all (\<lambda>k. k < connect_calls s) (ready_listeners s)"
    by (simp_all add: client_inv_def)
  from lt assms(2) have "k < connect_calls s" by (simp add: list_all_iff)
  moreover have "k \<notin> set (fold remove1 (error_listeners s) (ready_listeners s))"
    using d(1) assms(3) by (rule fold_remove1_removes)
  moreover have "k \<notin> set (fold remove1 (error_listeners s) (error_listeners s))"
    using d(2) assms(3) by (rule fold_remove1_removes)
  ultimately show ?thesis
    using assms(3,4) d(2)
    by (simp add: settlements_of_emit_error) (simp add: emit_error_def fold_onError)
qed

lemma pending_run:
  "client_inv s \<Longrightarrow> k \<in> set (ready_listeners s) \<Longrightarrow> k \<in> set (error_listeners s) \<Longrightarrow>
     settlements_of k s = [] \<Longrightarrow>
     settlements_of k (client_run es s) =
       (case first_signal es of
          Some EmitReady \<Rightarrow> [ConnectResolve]
        | Some (EmitError err) \<Rightarrow> [ConnectReject (VError err ''SSH connect failed'')]
        | _ \<Rightarrow> [])
     \<and> (k \<in> set (ready_listeners (client_run es s)) \<longleftrightarrow> first_signal es = None)
     \<and> (k \<in> set (error_listeners (client_run es s)) \<longleftrightarrow> first_signal es = None)"
proof (induction es arbitrary: s)
  case Nil
  then show ?case by simp
next
  case (Cons e es)
  show ?case
  proof (cases e)
    case CallConnect
    with pending_connect_step [OF Cons.prems, of e] Cons.prems(1)
      Cons.IH [of "client_step e s"]
    show ?thesis by (simp add: client_inv_step del: client_step.simps)
  next
    case CallConnectIfNeeded
    with pending_connect_step [OF Cons.prems, of e] Cons.prems(1)
      Cons.IH [of "client_step e s"]
    show ?thesis by (simp add: client_inv_step del: client_step.simps)
  next
    case EmitReady
    note p = pending_ready_step [OF Cons.prems]
    have "client_inv (emit_ready s)"
      using Cons.prems(1) by (rule client_inv_emit_ready)
    from done_run [OF this, of k es] p EmitReady show ?thesis by simp
  next
    case (EmitError err)
    note p = pending_error_step [OF Cons.prems, of err]
    have "client_inv (emit_error err s)"
      using Cons.prems(1) by (rule client_inv_emit_error)
    from done_run [OF this, of k es] p EmitError show ?thesis by simp
  qed
qed

lemma connect_pending:
  assumes "client_inv s"
  shows "client_inv (snd (connect s))
       \<and> fst (connect s) \<in> set (ready_listeners (snd (connect s)))
       \<and> fst (connect s) \<in> set (error_listeners (snd (connect s)))
       \<and> settlements_of (fst (connect s)) (snd (connect s)) = []"
proof -
  from assms have "list_all (\<lambda>p. fst p < connect_calls s) (connect_log s)"
    by (simp add: client_inv_def)
  then have "filter (\<lambda>p. fst p = connect_calls s) (connect_log s) = []"
    by (auto simp: list_all_iff filter_empty_conv)
  then show ?thesis
    using client_inv_connect [OF assms]
    by (simp add: connect_def Let_def settlements_of_def)
qed

text \<open>
  Claim C8. Take any call of \<^verbatim>\<open>connect()\<close>, on a client in any state it can reach, and any
  events after it. The promise that the call returned is settled by the first signal of
  the transport that follows, and by nothing else: resolved when that signal is
  \<^verbatim>\<open>ready\<close>, rejected with the transport's error wrapped (message
  \<^verbatim>\<open>SSH connect failed\<close>) when it is \<^verbatim>\<open>error\<close>, and not settled while there has been no
  signal. Its two listeners stay registered exactly as long as there has been no signal:
  after the first signal both are gone, so the one that lost can never be called.
\<close>

theorem connect_settles_with_first_signal:
  "settlements_of (fst (connect (client_run pre new_client)))
       (client_run es (snd (connect (client_run pre new_client)))) =
     (case first_signal es of
        Some EmitReady \<Rightarrow> [ConnectResolve]
      | Some (EmitError err) \<Rightarrow> [ConnectReject (VError err ''SSH connect failed'')]
      | _ \<Rightarrow> [])
   \<and> (fst (connect (client_run pre new_client))
         \<in> set (ready_listeners (client_run es (snd (connect (client_run pre new_client)))))
       \<longleftrightarrow> first_signal es = None)
   \<and> (fst (connect (client_run pre new_client))
         \<in> set (error_listeners (client_run es (snd (connect (client_run pre new_client)))))
       \<longleftrightarrow> first_signal es = None)"
proof -
  have "client_inv (client_run pre new_client)"
    by (rule client_inv_run [OF client_inv_new])
  from connect_pending [OF this] show ?thesis
    by (intro pending_run) simp_all
qed

theorem connect_settles_with_first_signal_witness:
  "settlements_of (fst (connect (client_run [] new_client)))
       (client_run [EmitError (Error ''ECONNREFUSED''), EmitReady]
          (snd (connect (client_run [] new_client))))
     = [ConnectReject (VError (Error ''ECONNREFUSED'') ''SSH connect failed'')]
   \<and> ready_listeners (client_run [EmitError (Error ''ECONNREFUSED''), EmitReady]
          (snd (connect (client_run [] new_client)))) = []
   \<and> settlements_of (fst (connect (client_run [] new_client)))
       (client_run [EmitReady, EmitError (Error ''ECONNRESET'')]
          (snd (connect (client_run [] new_client))))
     = [ConnectResolve]
   \<and> error_listeners (client_run [EmitReady, EmitError (Error ''ECONNRESET'')]
          (snd (connect (client_run [] new_client)))) = []"
  using connect_settles_with_first_signal [of "[]" "[EmitError (Error ''ECONNREFUSED''), EmitReady]"]
    connect_settles_with_first_signal [of "[]" "[EmitReady, EmitError (Error ''ECONNRESET'')]"]
  by (simp add: new_client_def connect_def Let_def emit_ready_def emit_error_def onReady_def
        onError_def settlements_of_def)

subsection \<open>Connecting on first use\<close>

lemma emit_fields:
  "connectStarted (emit_ready s) = connectStarted s
   \<and> connect_calls (emit_ready s) = connect_calls s
   \<and> connectStarted (emit_error err s) = connectStarted s
   \<and> connect_calls (emit_error err s) = connect_calls s"
  by (simp add: emit_ready_def emit_error_def fold_onReady fold_onError)

lemma connect_calls_run:
  "CallConnect \<notin> set es \<Longrightarrow>
     connect_calls (client_run es s) =
       (if \<not> connectStarted s \<and> CallConnectIfNeeded \<in> set es
        then Suc (connect_calls s) else connect_calls s)
     \<and> connectStarted (client_run es s)
         = (connectStarted s \<or> CallConnectIfNeeded \<in> set es)"
proof (induction es arbitrary: s)
  case Nil
  then show ?case by simp
next
  case (Cons e es)
  from Cons.prems have rest: "CallConnect \<notin> set es" and e: "e \<noteq> CallConnect" by auto
  note ih = Cons.IH [OF rest, of "client_step e s"]
  show ?case
  proof (cases e)
    case CallConnect
    with e show ?thesis by simp
  next
    case CallConnectIfNeeded
    with ih show ?thesis
      by (simp add: connectIfNeeded_def split_beta connect_def Let_def)
  next
    case EmitReady
    with ih show ?thesis by (simp add: emit_fields)
  next
    case (EmitError err)
    with ih show ?thesis by (simp add: emit_fields)
  qed
qed

text \<open>
  Claim C5, as amended. On a new client, any sequence of calls of \<^verbatim>\<open>connectIfNeeded\<close>
  (as \<^verbatim>\<open>exec\<close> and \<^verbatim>\<open>putFile\<close> make them) interleaved with signals of the transport,
  without a call of \<^verbatim>\<open>connect()\<close>, makes exactly one call of \<^verbatim>\<open>client.connect\<close> if it
  holds a call of \<^verbatim>\<open>connectIfNeeded\<close> at all. The first caller awaits the promise of that
  attempt. In every state where an attempt was started, in flight, succeeded or failed,
  \<^verbatim>\<open>connectIfNeeded\<close> changes nothing and awaits nothing.
\<close>

theorem connectIfNeeded_connects_once:
  assumes "CallConnect \<notin> set es"
  shows "connect_calls (client_run es new_client)
           = (if CallConnectIfNeeded \<in> set es then 1 else 0)
       \<and> (connectStarted (client_run es new_client) \<longleftrightarrow> CallConnectIfNeeded \<in> set es)
       \<and> fst (connectIfNeeded new_client) = Some 0
       \<and> (\<forall>s. connectStarted s \<longrightarrow> connectIfNeeded s = (None, s))"
  using connect_calls_run [OF assms, of new_client]
  by (simp add: new_client_def connectIfNeeded_def connect_def Let_def)

theorem connectIfNeeded_connects_once_witness:
  "CallConnect \<notin> set [CallConnectIfNeeded, CallConnectIfNeeded, EmitError (Error ''EHOSTUNREACH''),
       CallConnectIfNeeded]
   \<and> connect_calls (client_run [CallConnectIfNeeded, CallConnectIfNeeded,
       EmitError (Error ''EHOSTUNREACH''), CallConnectIfNeeded] new_client) = 1
   \<and> connectStarted (client_run [CallConnectIfNeeded, CallConnectIfNeeded,
       EmitError (Error ''EHOSTUNREACH''), CallConnectIfNeeded] new_client)
   \<and> connectIfNeeded (client_run [CallConnectIfNeeded, EmitError (Error ''EHOSTUNREACH'')] new_client)
       = (None, client_run [CallConnectIfNeeded, EmitError (Error ''EHOSTUNREACH'')] new_client)"
  using connectIfNeeded_connects_once [of "[CallConnectIfNeeded, CallConnectIfNeeded,
       EmitError (Error ''EHOSTUNREACH''), CallConnectIfNeeded]"]
  by (simp add: new_client_def connectIfNeeded_def connect_def Let_def emit_error_def onError_def)

text \<open>
  Claim C5 as it was stated has the one attempt shared by the callers that raced. The
  second caller does not share it: while the promise of the first attempt is unsettled
  and both its listeners are registered, \<^verbatim>\<open>connectIfNeeded\<close> awaits nothing and lets its
  caller go on at once.
\<close>

theorem connectIfNeeded_second_caller_counterexample:
  "fst (connectIfNeeded new_client) = Some 0
   \<and> settlements_of 0 (snd (connectIfNeeded new_client)) = []
   \<and> ready_listeners (snd (connectIfNeeded new_client)) = [0]
   \<and> error_listeners (snd (connectIfNeeded new_client)) = [0]
   \<and> fst (connectIfNeeded (snd (connectIfNeeded new_client))) = None"
  by (simp add: new_client_def connectIfNeeded_def connect_def Let_def settlements_of_def)

end
